theory Spec2Isabelle
  imports Complex_Main "HOL-Library.AList" "HOL-Library.FSet"
begin

section \<open>Exceptions\<close>

text \<open>
  Every exception the modelled code can raise is a value of \<open>error\<close>; a function
  that may raise returns \<open>error + 'a\<close> with \<open>Inl\<close> for the exception.
\<close>

datatype error =
    RuntimeError | AssertionError | KeyError | ValueError | TypeError
  | IndexError | OSError | EOFError | NoSuchJobException | NoSuchFileException
  | RecursionDepthExceeded

text \<open>
  \<open>RecursionDepthExceeded\<close> is the interpreter's "maximum recursion depth exceeded":
  the recursive traversals of the target graph take the remaining recursion depth as an
  argument and raise it at depth zero, so a traversal that returns a value has returned
  within the bound.
\<close>

section \<open>Targets (jobTree/target.py)\<close>

text \<open>
  A \<open>Target\<close> object: \<open>memory\<close>, \<open>cpu\<close>, \<open>_children\<close>, \<open>_followOns\<close>,
  \<open>_predecessors\<close> and \<open>_rvs\<close>. Targets and promises are objects compared by
  identity, so they are referred to by address. The dict \<open>_rvs\<close> is an association
  list whose order stands for the dict's iteration order.
\<close>

definition maxint :: int where
  "maxint = 9223372036854775807"

record target =
  tmemory :: int
  tcpu :: int
  children :: "nat list"
  followOns :: "nat list"
  predecessors :: "nat fset"
  rvs :: "(int \<times> nat) list"

text \<open>
  Dynamically typed values: what a stack phase holds, what a user job's \<open>run\<close> returns
  and what is pickled into a file. \<open>PPromise p\<close> is an instance of
  \<open>PromisedTargetReturnValue\<close>, the object at address \<open>p\<close>, and \<open>PTarget t\<close> a
  pickled target; pickling is the identity on \<open>pyval\<close>, an unpickled \<open>PPromise p\<close>
  standing for the copy of that object.
\<close>

datatype pyval =
    PNone | PInt int | PStr string | PTuple "pyval list" | PPromise nat | PTarget target

text \<open>
  The objects of one worker process: the targets by address, the field
  \<open>jobStoreFileID\<close> of each \<open>PromisedTargetReturnValue\<close> by address, and the
  address the next promise object gets.
\<close>

record heap =
  targets :: "nat \<Rightarrow> target"
  promises :: "nat \<Rightarrow> string option"
  nextPromise :: nat

text \<open>\<open>Target.__init__\<close>: the state of a target that declared nothing yet.\<close>

definition newTarget :: "int \<Rightarrow> int \<Rightarrow> target" where
  "newTarget m c =
     \<lparr>tmemory = m, tcpu = c, children = [], followOns = [], predecessors = {||}, rvs = []\<rparr>"

definition emptyHeap :: heap where
  "emptyHeap = \<lparr>targets = (\<lambda>_. newTarget maxint maxint), promises = (\<lambda>_. None), nextPromise = 0\<rparr>"

definition setTarget :: "nat \<Rightarrow> target \<Rightarrow> heap \<Rightarrow> heap" where
  "setTarget a t h = h\<lparr>targets := (targets h)(a := t)\<rparr>"

text \<open>
  \<open>Target._addPredecessor\<close>: raises \<open>RuntimeError\<close> when the predecessor is already
  in \<open>_predecessors\<close>, else adds it.
\<close>

definition addPredecessor :: "nat \<Rightarrow> nat \<Rightarrow> heap \<Rightarrow> error + heap" where
  "addPredecessor self predecessorTarget h =
     (if predecessorTarget |\<in>| predecessors (targets h self) then Inl RuntimeError
      else Inr (setTarget self
             ((targets h self)\<lparr>predecessors := finsert predecessorTarget (predecessors (targets h self))\<rparr>) h))"

text \<open>
  \<open>Target.addChild\<close> and \<open>Target.addFollowOn\<close>. The successor is appended to the
  list before \<open>_addPredecessor\<close> is called, so the heap a raising call leaves behind is
  part of the result: the first component is the heap after the call, the second the
  returned target or the exception.
\<close>

definition addChild :: "nat \<Rightarrow> nat \<Rightarrow> heap \<Rightarrow> heap \<times> (error + nat)" where
  "addChild self childTarget h =
     (let h1 = setTarget self ((targets h self)\<lparr>children := children (targets h self) @ [childTarget]\<rparr>) h
      in case addPredecessor childTarget self h1 of
           Inl e \<Rightarrow> (h1, Inl e)
         | Inr h2 \<Rightarrow> (h2, Inr childTarget))"

definition addFollowOn :: "nat \<Rightarrow> nat \<Rightarrow> heap \<Rightarrow> heap \<times> (error + nat)" where
  "addFollowOn self followOnTarget h =
     (let h1 = setTarget self ((targets h self)\<lparr>followOns := followOns (targets h self) @ [followOnTarget]\<rparr>) h
      in case addPredecessor followOnTarget self h1 of
           Inl e \<Rightarrow> (h1, Inl e)
         | Inr h2 \<Rightarrow> (h2, Inr followOnTarget))"

text \<open>
  \<open>Target.rv\<close>: the promise already stored under \<open>argIndex\<close>, or a new
  \<open>PromisedTargetReturnValue\<close> (a new object with \<open>jobStoreFileID = None\<close>) stored
  under it.
\<close>

definition rv :: "nat \<Rightarrow> int \<Rightarrow> heap \<Rightarrow> nat \<times> heap" where
  "rv self argIndex h =
     (case map_of (rvs (targets h self)) argIndex of
        Some p \<Rightarrow> (p, h)
      | None \<Rightarrow>
          (let p = nextPromise h;
               h1 = h\<lparr>promises := (promises h)(p := None), nextPromise := Suc p\<rparr>
           in (p, setTarget self ((targets h1 self)\<lparr>rvs := rvs (targets h1 self) @ [(argIndex, p)]\<rparr>) h1)))"

text \<open>A sequence of \<open>rv\<close> calls, each on a target and an index; the promises returned, in order.\<close>

fun rv_calls :: "(nat \<times> int) list \<Rightarrow> heap \<Rightarrow> nat list \<times> heap" where
  "rv_calls [] h = ([], h)"
| "rv_calls ((t, i) # cs) h =
     (case rv t i h of (p, h1) \<Rightarrow> (case rv_calls cs h1 of (ps, h2) \<Rightarrow> (p # ps, h2)))"

section \<open>Job records and the job store\<close>

text \<open>
  Modelled from the spec: the class \<open>BatchJob\<close> (toil/batchJob.py) is not among the
  source files. Its fields are those of the spec's data model, which the job store test
  reads back after \<open>create\<close>. A stack phase is a list of Python values, since the code
  stores tuples of different lengths and bare ids there. Resource amounts are integers,
  the configuration document holds its values already parsed.
\<close>

record batchjob =
  jobStoreID :: string
  command :: "string option"
  memory :: int
  cpu :: int
  disk :: int
  remainingRetryCount :: int
  predecessorNumber :: nat
  predecessorsFinished :: "pyval fset"
  stack :: "pyval list list"
  jobsToDelete :: "string list"
  logJobStoreFileID :: "string option"
  updateID :: "string option"

record config =
  job_store :: string
  try_count :: int
  default_memory :: int
  default_cpu :: int
  default_disk :: int
  job_time :: real
  max_job_duration :: real
  rescue_jobs_frequency :: real

datatype content = EmptyFile | Pickle pyval

text \<open>
  Modelled from the spec: the job store contract of section 4.1 (the methods of
  \<open>AbstractJobStore\<close> are abstract). The records are kept in the order \<open>jobs()\<close>
  yields them; a file belongs to the job it was created for; \<open>jobIDs\<close> and
  \<open>fileIDs\<close> give the identifier the store assigns to the n-th record and the n-th
  file it creates. \<open>statsFiles\<close> is the listing of the stats files of
  \<open>FileJobStore\<close>, name and content, in the order the directories are scanned.
\<close>

record jobStore =
  config :: config
  jobs :: "(string \<times> batchjob) list"
  files :: "string \<Rightarrow> (string \<times> content) option"
  statsFiles :: "(string \<times> string) list"
  jobIDs :: "nat \<Rightarrow> string"
  nextJob :: nat
  fileIDs :: "nat \<Rightarrow> string"
  nextFile :: nat

definition exists_job :: "jobStore \<Rightarrow> string \<Rightarrow> bool" where
  "exists_job st i = (map_of (jobs st) i \<noteq> None)"

definition load :: "jobStore \<Rightarrow> string \<Rightarrow> error + batchjob" where
  "load st i = (case map_of (jobs st) i of None \<Rightarrow> Inl NoSuchJobException | Some j \<Rightarrow> Inr j)"

definition update :: "batchjob \<Rightarrow> jobStore \<Rightarrow> jobStore" where
  "update j st = st\<lparr>jobs := AList.update (jobStoreID j) j (jobs st)\<rparr>"

definition delete :: "string \<Rightarrow> jobStore \<Rightarrow> jobStore" where
  "delete i st =
     st\<lparr>jobs := AList.delete i (jobs st),
        files := (\<lambda>f. case files st f of
                         None \<Rightarrow> None
                       | Some (owner, c) \<Rightarrow> if owner = i then None else Some (owner, c))\<rparr>"

definition newBatchJob ::
  "string option \<Rightarrow> int \<Rightarrow> int \<Rightarrow> int \<Rightarrow> string \<Rightarrow> int \<Rightarrow> string option \<Rightarrow> nat \<Rightarrow> batchjob" where
  "newBatchJob cmd m c d i retries uid pn =
     \<lparr>jobStoreID = i, command = cmd, memory = m, cpu = c, disk = d,
      remainingRetryCount = retries, predecessorNumber = pn, predecessorsFinished = {||},
      stack = [], jobsToDelete = [], logJobStoreFileID = None, updateID = uid\<rparr>"

definition create ::
  "string option \<Rightarrow> int \<Rightarrow> int \<Rightarrow> int \<Rightarrow> string option \<Rightarrow> nat \<Rightarrow> jobStore \<Rightarrow> batchjob \<times> jobStore" where
  "create cmd m c d uid pn st =
     (let j = newBatchJob cmd m c d (jobIDs st (nextJob st)) (try_count (config st)) uid pn
      in (j, update j (st\<lparr>nextJob := Suc (nextJob st)\<rparr>)))"

definition fileExists :: "jobStore \<Rightarrow> string \<Rightarrow> bool" where
  "fileExists st f = (files st f \<noteq> None)"


text \<open>
  \<open>getEmptyFileStoreID\<close> and \<open>writeFileStream\<close>: a new file of the given job, empty
  or holding what was written to the stream. \<open>FileJobStore\<close> raises
  \<open>NoSuchJobException\<close> when the job does not exist.
\<close>

definition writeFileStream :: "string \<Rightarrow> content \<Rightarrow> jobStore \<Rightarrow> error + (string \<times> jobStore)" where
  "writeFileStream i c st =
     (if \<not> exists_job st i then Inl NoSuchJobException
      else let f = fileIDs st (nextFile st)
           in Inr (f, st\<lparr>files := (files st)(f := Some (i, c)), nextFile := Suc (nextFile st)\<rparr>))"

definition getEmptyFileStoreID :: "string \<Rightarrow> jobStore \<Rightarrow> error + (string \<times> jobStore)" where
  "getEmptyFileStoreID i st = writeFileStream i EmptyFile st"

text \<open>
  \<open>updateFileStream\<close> and \<open>readFileStream\<close>: \<open>NoSuchFileException\<close> when the
  file does not exist.
\<close>

definition updateFileStream :: "string \<Rightarrow> content \<Rightarrow> jobStore \<Rightarrow> error + jobStore" where
  "updateFileStream f c st =
     (case files st f of
        None \<Rightarrow> Inl NoSuchFileException
      | Some (owner, _) \<Rightarrow> Inr (st\<lparr>files := (files st)(f := Some (owner, c))\<rparr>))"

definition readFileStream :: "jobStore \<Rightarrow> string \<Rightarrow> error + content" where
  "readFileStream st f =
     (case files st f of None \<Rightarrow> Inl NoSuchFileException | Some (_, c) \<Rightarrow> Inr c)"

section \<open>Graph declaration calls\<close>

text \<open>
  User code declares the graph by calling \<open>addChild\<close> and \<open>addFollowOn\<close>. A call
  sequence runs every call on the heap its predecessor left, whether that call returned
  or raised.
\<close>

datatype call = AddChild nat nat | AddFollowOn nat nat

fun do_call :: "call \<Rightarrow> heap \<Rightarrow> heap \<times> (error + nat)" where
  "do_call (AddChild a b) h = addChild a b h"
| "do_call (AddFollowOn a b) h = addFollowOn a b h"

fun do_calls :: "call list \<Rightarrow> heap \<Rightarrow> heap" where
  "do_calls [] h = h"
| "do_calls (c # cs) h = do_calls cs (fst (do_call c h))"

text \<open>The declared successor edges of a target: \<open>self._children + self._followOns\<close>.\<close>

definition successors :: "heap \<Rightarrow> nat \<Rightarrow> nat list" where
  "successors h a = children (targets h a) @ followOns (targets h a)"

text \<open>
  No target lists a successor twice, and every listed successor has the target in its
  \<open>_predecessors\<close>.
\<close>

definition edges_ok :: "heap \<Rightarrow> bool" where
  "edges_ok h =
     (\<forall>a. distinct (successors h a) \<and>
          (\<forall>b. b \<in> set (successors h a) \<longrightarrow> a |\<in>| predecessors (targets h b)))"

section \<open>The worker: promises\<close>

text \<open>
  The state of a worker process: its objects, the job store it talks to, and the values
  \<open>uuid.uuid1()\<close> and \<open>uuid.uuid4()\<close> return, in call order.
\<close>

record worker =
  wheap :: heap
  store :: jobStore
  uuids :: "nat \<Rightarrow> string"
  nextUuid :: nat

definition uuid :: "worker \<Rightarrow> string \<times> worker" where
  "uuid w = (uuids w (nextUuid w), w\<lparr>nextUuid := Suc (nextUuid w)\<rparr>)"

text \<open>A \<open>for\<close> loop and a \<open>map\<close> whose body may raise and changes the state.\<close>

fun forM :: "('a \<Rightarrow> 's \<Rightarrow> error + 's) \<Rightarrow> 'a list \<Rightarrow> 's \<Rightarrow> error + 's" where
  "forM f [] s = Inr s"
| "forM f (x # xs) s = (case f x s of Inl e \<Rightarrow> Inl e | Inr s1 \<Rightarrow> forM f xs s1)"

fun mapM :: "('a \<Rightarrow> 's \<Rightarrow> error + ('b \<times> 's)) \<Rightarrow> 'a list \<Rightarrow> 's \<Rightarrow> error + ('b list \<times> 's)" where
  "mapM f [] s = Inr ([], s)"
| "mapM f (x # xs) s =
     (case f x s of
        Inl e \<Rightarrow> Inl e
      | Inr (y, s1) \<Rightarrow>
          (case mapM f xs s1 of Inl e \<Rightarrow> Inl e | Inr (ys, s2) \<Rightarrow> Inr (y # ys, s2)))"

text \<open>
  \<open>Target._setFileIDsForPromisedValues\<close>. First its loop over \<open>self._rvs.values()\<close>:
  a promise whose \<open>jobStoreFileID\<close> is \<open>None\<close> gets a new empty file of the job.
\<close>

fun setFileIDs_rvs :: "string \<Rightarrow> nat list \<Rightarrow> worker \<Rightarrow> error + worker" where
  "setFileIDs_rvs i [] w = Inr w"
| "setFileIDs_rvs i (p # ps) w =
     (if promises (wheap w) p = None then
        (case getEmptyFileStoreID i (store w) of
           Inl e \<Rightarrow> Inl e
         | Inr (f, st) \<Rightarrow>
             setFileIDs_rvs i ps
               (w\<lparr>wheap := (wheap w)\<lparr>promises := (promises (wheap w))(p := Some f)\<rparr>, store := st\<rparr>))
      else setFileIDs_rvs i ps w)"

fun setFileIDsForPromisedValues ::
  "nat \<Rightarrow> nat \<Rightarrow> string \<Rightarrow> nat fset \<times> worker \<Rightarrow> error + (nat fset \<times> worker)" where
  "setFileIDsForPromisedValues 0 self i s = Inl RecursionDepthExceeded"
| "setFileIDsForPromisedValues (Suc n) self i (visited, w) =
     (if self |\<in>| visited then Inr (visited, w)
      else case setFileIDs_rvs i (map snd (rvs (targets (wheap w) self))) w of
             Inl e \<Rightarrow> Inl e
           | Inr w1 \<Rightarrow>
               forM (\<lambda>successorTarget. setFileIDsForPromisedValues n successorTarget i)
                 (successors (wheap w1) self) (finsert self visited, w1))"

text \<open>Python's \<open>xs[i]\<close> on a tuple: a negative index counts from the end.\<close>

definition py_index :: "pyval list \<Rightarrow> int \<Rightarrow> error + pyval" where
  "py_index xs i =
     (if 0 \<le> i \<and> i < int (length xs) then Inr (xs ! nat i)
      else if i < 0 \<and> - int (length xs) \<le> i then Inr (xs ! nat (int (length xs) + i))
      else Inl IndexError)"

text \<open>\<open>PromisedTargetReturnValue._storeValue\<close>: pickles the value into the promise's file.\<close>

definition storeValue :: "nat \<Rightarrow> pyval \<Rightarrow> worker \<Rightarrow> error + worker" where
  "storeValue p valueToStore w =
     (case promises (wheap w) p of
        None \<Rightarrow> Inl AssertionError
      | Some f \<Rightarrow>
          (case updateFileStream f (Pickle valueToStore) (store w) of
             Inl e \<Rightarrow> Inl e
           | Inr st \<Rightarrow> Inr (w\<lparr>store := st\<rparr>)))"

text \<open>
  \<open>Target._setReturnValuesForPromises\<close>: for every index \<open>i\<close> of \<open>target._rvs\<close>
  the i-th component of a tuple, or the value itself when it is no tuple and \<open>i\<close> is 0,
  is stored to the promise.
\<close>

definition argToStore :: "pyval \<Rightarrow> int \<Rightarrow> error + pyval" where
  "argToStore returnValues i =
     (case returnValues of
        PTuple xs \<Rightarrow> py_index xs i
      | _ \<Rightarrow> if i \<noteq> 0 then Inl RuntimeError else Inr returnValues)"

definition setReturnValuesForPromises :: "nat \<Rightarrow> pyval \<Rightarrow> worker \<Rightarrow> error + worker" where
  "setReturnValuesForPromises target returnValues w =
     forM (\<lambda>(i, p) w1. case argToStore returnValues i of
                          Inl e \<Rightarrow> Inl e
                        | Inr v \<Rightarrow> storeValue p v w1)
       (rvs (targets (wheap w) target)) w"

text \<open>
  \<open>PromisedTargetReturnValue.loadValue\<close>: unpickles the file of the promise; a value
  that is itself a \<open>PromisedTargetReturnValue\<close> raises \<open>RuntimeError\<close>. Unpickling
  an empty file raises \<open>EOFError\<close>.
\<close>

definition isPromise :: "pyval \<Rightarrow> bool" where
  "isPromise v = (case v of PPromise _ \<Rightarrow> True | _ \<Rightarrow> False)"

definition loadValue :: "nat \<Rightarrow> worker \<Rightarrow> error + pyval" where
  "loadValue p w =
     (case promises (wheap w) p of
        None \<Rightarrow> Inl AssertionError
      | Some f \<Rightarrow>
          (case readFileStream (store w) f of
             Inl e \<Rightarrow> Inl e
           | Inr EmptyFile \<Rightarrow> Inl EOFError
           | Inr (Pickle v) \<Rightarrow> if isPromise v then Inl RuntimeError else Inr v))"

text \<open>
  Every promise referred to by a \<open>_rvs\<close> dict has been allocated, and is referred to
  by one target under one index only.
\<close>

definition promises_ok :: "heap \<Rightarrow> bool" where
  "promises_ok h =
     (\<forall>t i p. (i, p) \<in> set (rvs (targets h t)) \<longrightarrow>
        p < nextPromise h \<and>
        (\<forall>t' i'. (i', p) \<in> set (rvs (targets h t')) \<longrightarrow> t' = t \<and> i' = i))"


section \<open>The worker: serialising the target graph\<close>


text \<open>
  \<open>Target._createEmptyJobForTarget\<close>. The target's memory and cpu, or the configured
  defaults when they are \<open>sys.maxint\<close>. Modelled from the spec: the job store this file
  calls (package jobTree) is not among the source files and its \<open>create\<close> takes no
  disk; the record gets the configured default, as the spec's data model says.
\<close>

definition createEmptyJobForTarget ::
  "target \<Rightarrow> string option \<Rightarrow> string option \<Rightarrow> nat \<Rightarrow> jobStore \<Rightarrow> batchjob \<times> jobStore" where
  "createEmptyJobForTarget t uid cmd pn st =
     create cmd
       (if tmemory t \<noteq> maxint then tmemory t else default_memory (config st))
       (if tcpu t \<noteq> maxint then tcpu t else default_cpu (config st))
       (default_disk (config st)) uid pn st"

text \<open>
  The tuple \<open>_makeJobWrappers\<close> returns for a job: id, memory, cpu and the predecessor
  id, which is \<open>None\<close> when \<open>predecessorNumber \<le> 1\<close> and a new UUID otherwise.
\<close>

definition jobTuple :: "batchjob \<Rightarrow> worker \<Rightarrow> pyval \<times> worker" where
  "jobTuple job w =
     (if predecessorNumber job \<le> 1
      then (PTuple [PStr (jobStoreID job), PInt (memory job), PInt (cpu job), PNone], w)
      else case uuid w of
             (u, w1) \<Rightarrow> (PTuple [PStr (jobStoreID job), PInt (memory job), PInt (cpu job), PStr u], w1))"

text \<open>\<open>job.stack.append(jobs)\<close> under \<open>if len(jobs) > 0\<close>.\<close>

definition appendPhase :: "pyval list \<Rightarrow> batchjob \<Rightarrow> batchjob" where
  "appendPhase phase job = (if length phase > 0 then job\<lparr>stack := stack job @ [phase]\<rparr> else job)"

text \<open>
  \<open>Target._makeJobWrappers\<close>. The state is the dict \<open>targetsToJobs\<close> and the worker.
  The job object stored in \<open>targetsToJobs\<close> is read later only in the fields set at
  creation. The command omits the module path of the pickled target.
\<close>

fun makeJobWrappers ::
  "nat \<Rightarrow> (nat \<times> string) list \<Rightarrow> nat \<Rightarrow> nat \<Rightarrow> (nat \<times> batchjob) list \<times> worker
     \<Rightarrow> error + (pyval \<times> ((nat \<times> batchjob) list \<times> worker))" where
  "makeJobWrappers 0 targetsToUUIDs predecessor self s = Inl RecursionDepthExceeded"
| "makeJobWrappers (Suc n) targetsToUUIDs predecessor self (targetsToJobs, w) =
     (case map_of targetsToJobs self of
        None \<Rightarrow>
          (if predecessor |\<notin>| predecessors (targets (wheap w) self) then Inl AssertionError
           else case map_of targetsToUUIDs self of
             None \<Rightarrow> Inl KeyError
           | Some u \<Rightarrow>
               (case createEmptyJobForTarget (targets (wheap w) self) (Some u) None
                       (fcard (predecessors (targets (wheap w) self))) (store w) of
                  (job, st1) \<Rightarrow>
               (case mapM (makeJobWrappers n targetsToUUIDs self) (followOns (targets (wheap w) self))
                       (AList.update self job targetsToJobs, w\<lparr>store := st1\<rparr>) of
                  Inl e \<Rightarrow> Inl e
                | Inr (fjobs, s2) \<Rightarrow>
               (case mapM (makeJobWrappers n targetsToUUIDs self) (children (targets (wheap w) self)) s2 of
                  Inl e \<Rightarrow> Inl e
                | Inr (cjobs, (targetsToJobs3, w3)) \<Rightarrow>
               (let job2 = appendPhase cjobs (appendPhase fjobs job);
                    t4 = (targets (wheap w3) self)\<lparr>children := [], followOns := [], predecessors := {||}\<rparr>;
                    w4 = w3\<lparr>wheap := setTarget self t4 (wheap w3)\<rparr>
                in case getEmptyFileStoreID (jobStoreID job2) (store w4) of
                     Inl e \<Rightarrow> Inl e
                   | Inr (f0, st5) \<Rightarrow>
                  (case writeFileStream (jobStoreID job2) (Pickle (PTarget t4)) st5 of
                     Inl e \<Rightarrow> Inl e
                   | Inr (f, st6) \<Rightarrow>
                  (let job3 = job2\<lparr>command := Some (''scriptTree '' @ f)\<rparr>
                   in case jobTuple job3 (w4\<lparr>store := update job3 st6\<rparr>) of
                        (tup, w7) \<Rightarrow> Inr (tup, (targetsToJobs3, w7)))))))))
      | Some job \<Rightarrow>
          (if \<not> predecessorNumber job > 1 then Inl AssertionError
           else case jobTuple job w of (tup, w1) \<Rightarrow> Inr (tup, (targetsToJobs, w1))))"


section \<open>The leader: unpacking a stack phase\<close>

text \<open>
  The leader's \<open>for successorJobStoreID, memory, cpu, disk, predecessorID in
  batchjob.stack.pop()\<close>: the last phase is removed from the stack, and every element
  of it is unpacked into five names. Unpacking a tuple or a string of another length
  raises \<open>ValueError\<close>, unpacking a value that is not iterable \<open>TypeError\<close>.
\<close>

definition stack_pop :: "batchjob \<Rightarrow> error + (pyval list \<times> batchjob)" where
  "stack_pop j =
     (if stack j = [] then Inl IndexError
      else Inr (last (stack j), j\<lparr>stack := butlast (stack j)\<rparr>))"

definition unpack5 :: "pyval \<Rightarrow> error + (pyval \<times> pyval \<times> pyval \<times> pyval \<times> pyval)" where
  "unpack5 v =
     (case v of
        PTuple [a, b, c, d, e] \<Rightarrow> Inr (a, b, c, d, e)
      | PTuple _ \<Rightarrow> Inl ValueError
      | PStr [a, b, c, d, e] \<Rightarrow> Inr (PStr [a], PStr [b], PStr [c], PStr [d], PStr [e])
      | PStr _ \<Rightarrow> Inl ValueError
      | _ \<Rightarrow> Inl TypeError)"


section \<open>The stats and logging channel (toil/jobStores/fileJobStore.py)\<close>

text \<open>Python's \<open>str.startswith\<close>, \<open>str.endswith\<close> and the slice \<open>s[:-4]\<close>.\<close>

definition startswith :: "string \<Rightarrow> string \<Rightarrow> bool" where
  "startswith s pre = (take (length pre) s = pre)"

definition endswith :: "string \<Rightarrow> string \<Rightarrow> bool" where
  "endswith s suf = (length suf \<le> length s \<and> drop (length s - length suf) s = suf)"

definition dropLast4 :: "string \<Rightarrow> string" where
  "dropLast4 s = take (length s - 4) s"

text \<open>
  \<open>FileJobStore.writeStatsAndLogging\<close> is three file system operations, between which
  other processes run: \<open>mkstemp\<close> creates the empty file \<open>stats<random>.new\<close> (the
  random part is what \<open>mkstemp\<close> chose; a name in use is refused), the string is
  written to that path (\<open>open(path, "w")\<close> creates the file when it is missing), and
  the file is renamed to the name without \<open>.new\<close>. \<open>os.rename\<close> raises
  \<open>OSError\<close> when the source is missing and replaces an existing destination.
\<close>

definition statsTempName :: "string \<Rightarrow> string" where
  "statsTempName random = ''stats'' @ random @ ''.new''"

definition mkstemp_stats :: "string \<Rightarrow> jobStore \<Rightarrow> error + (string \<times> jobStore)" where
  "mkstemp_stats random st =
     (let tempStatsFile = statsTempName random
      in if map_of (statsFiles st) tempStatsFile \<noteq> None then Inl OSError
         else Inr (tempStatsFile, st\<lparr>statsFiles := statsFiles st @ [(tempStatsFile, '''')]\<rparr>))"

definition write_stats :: "string \<Rightarrow> string \<Rightarrow> jobStore \<Rightarrow> jobStore" where
  "write_stats tempStatsFile statsAndLoggingString st =
     st\<lparr>statsFiles := AList.update tempStatsFile statsAndLoggingString (statsFiles st)\<rparr>"

definition rename_stats :: "string \<Rightarrow> jobStore \<Rightarrow> error + jobStore" where
  "rename_stats tempStatsFile st =
     (case map_of (statsFiles st) tempStatsFile of
        None \<Rightarrow> Inl OSError
      | Some c \<Rightarrow>
          Inr (st\<lparr>statsFiles :=
                    AList.update (dropLast4 tempStatsFile) c (AList.delete tempStatsFile (statsFiles st))\<rparr>))"

text \<open>A call of \<open>writeStatsAndLogging\<close> that no other process interleaves with.\<close>

definition writeStatsAndLogging :: "string \<Rightarrow> string \<Rightarrow> jobStore \<Rightarrow> error + jobStore" where
  "writeStatsAndLogging random statsAndLoggingString st =
     (case mkstemp_stats random st of
        Inl e \<Rightarrow> Inl e
      | Inr (tempStatsFile, st1) \<Rightarrow>
          rename_stats tempStatsFile (write_stats tempStatsFile statsAndLoggingString st1))"

text \<open>
  \<open>FileJobStore.readStatsAndLogging\<close>: over the listing of the directories, a file
  whose name starts with \<open>stats\<close> is passed to the callback and counted unless its name
  ends with \<open>.new\<close>, and is removed in either case: \<open>os.remove\<close> stands after the
  \<open>if\<close>, not under it. The callback folds the contents it is given into an
  accumulator; the result is the count, the accumulator and the store.
\<close>

fun readStats_loop ::
  "(string \<Rightarrow> 'a \<Rightarrow> 'a) \<Rightarrow> (string \<times> string) list \<Rightarrow> nat \<times> 'a \<times> jobStore \<Rightarrow> nat \<times> 'a \<times> jobStore" where
  "readStats_loop cb [] s = s"
| "readStats_loop cb ((tempFile, c) # fs) (numberOfFilesProcessed, acc, st) =
     (if startswith tempFile ''stats'' then
        readStats_loop cb fs
          (if \<not> endswith tempFile ''.new'' then Suc numberOfFilesProcessed else numberOfFilesProcessed,
           if \<not> endswith tempFile ''.new'' then cb c acc else acc,
           st\<lparr>statsFiles := AList.delete tempFile (statsFiles st)\<rparr>)
      else readStats_loop cb fs (numberOfFilesProcessed, acc, st))"

definition readStatsAndLogging ::
  "(string \<Rightarrow> 'a \<Rightarrow> 'a) \<Rightarrow> 'a \<Rightarrow> jobStore \<Rightarrow> nat \<times> 'a \<times> jobStore" where
  "readStatsAndLogging cb acc st = readStats_loop cb (statsFiles st) (0, acc, st)"

text \<open>The callback of the aggregator and of the test: it keeps what it was given.\<close>

definition collect :: "string \<Rightarrow> string list \<Rightarrow> string list" where
  "collect c acc = acc @ [c]"

section \<open>Cleanup after a restart (toil/jobStores/abstractJobStore.py)\<close>


text \<open>
  \<open>exists\<close> and \<open>load\<close> on a value taken from a phase. Modelled from the spec: an
  id that is no string names no record of the store.
\<close>

definition exists_pv :: "jobStore \<Rightarrow> pyval \<Rightarrow> bool" where
  "exists_pv st v = (case v of PStr i \<Rightarrow> exists_job st i | _ \<Rightarrow> False)"

definition load_pv :: "jobStore \<Rightarrow> pyval \<Rightarrow> error + batchjob" where
  "load_pv st v = (case v of PStr i \<Rightarrow> load st i | _ \<Rightarrow> Inl NoSuchJobException)"











definition descriptor :: "pyval \<Rightarrow> bool" where
  "descriptor v = (case v of PTuple (PStr i # _) \<Rightarrow> True | _ \<Rightarrow> False)"


definition listed :: "pyval \<Rightarrow> pyval" where
  "listed v = (case v of PTuple (x # _) \<Rightarrow> x | _ \<Rightarrow> v)"



section \<open>The leader (toil/leader.py)\<close>

text \<open>
  The batch system is an external collaborator. Its state here is what the leader told
  it: the jobs issued (with the id it answered, the job store id the command names, and
  the resources) and the ids it was asked to kill. \<open>batchIDs\<close> is the id it answers
  to the n-th \<open>issueBatchJob\<close>. What it reports back (updated jobs, running times, the
  ids it knows) is an input of the leader's loop.
\<close>

record batchSystem =
  batchIDs :: "nat \<Rightarrow> nat"
  issuedLog :: "(nat \<times> pyval \<times> pyval \<times> pyval \<times> pyval) list"
  killedLog :: "nat list"

text \<open>
  The leader's state: the job store, the batch system, the fields of \<open>JobBatcher\<close>
  and of \<open>ToilState\<close>. Dicts are association lists; the set \<open>updatedJobs\<close> is a list
  without repetitions, iterated in list order. A \<open>BatchJob\<close> object held by several
  of these structures is held as its value, which is read there only after its last
  mutation. Log messages and the replay of a job's log file are left out.
\<close>

record leader =
  jobStore :: jobStore
  batchSystem :: batchSystem
  jobBatchSystemIDToJobStoreIDHash :: "(nat \<times> pyval) list"
  jobsIssued :: int
  reissueMissingJobs_missingHash :: "(nat \<times> nat) list"
  successorJobStoreIDToPredecessorJobs :: "(pyval \<times> batchjob list) list"
  successorCounts :: "(batchjob \<times> int) list"
  updatedJobs :: "batchjob list"

definition issueBatchJob ::
  "pyval \<Rightarrow> pyval \<Rightarrow> pyval \<Rightarrow> pyval \<Rightarrow> batchSystem \<Rightarrow> nat \<times> batchSystem" where
  "issueBatchJob i m c d b =
     (let jobBatchSystemID = batchIDs b (length (issuedLog b))
      in (jobBatchSystemID, b\<lparr>issuedLog := issuedLog b @ [(jobBatchSystemID, i, m, c, d)]\<rparr>))"

definition killBatchJobs :: "nat list \<Rightarrow> batchSystem \<Rightarrow> batchSystem" where
  "killBatchJobs ids b = b\<lparr>killedLog := killedLog b @ ids\<rparr>"

subsection \<open>JobBatcher\<close>

definition issueJob :: "pyval \<Rightarrow> pyval \<Rightarrow> pyval \<Rightarrow> pyval \<Rightarrow> leader \<Rightarrow> leader" where
  "issueJob i m c d l =
     (case issueBatchJob i m c d (batchSystem l) of
        (jobBatchSystemID, b) \<Rightarrow>
          l\<lparr>jobsIssued := jobsIssued l + 1, batchSystem := b,
            jobBatchSystemIDToJobStoreIDHash :=
              AList.update jobBatchSystemID i (jobBatchSystemIDToJobStoreIDHash l)\<rparr>)"

fun issueJobs :: "(pyval \<times> pyval \<times> pyval \<times> pyval) list \<Rightarrow> leader \<Rightarrow> leader" where
  "issueJobs [] l = l"
| "issueJobs ((i, m, c, d) # js) l = issueJobs js (issueJob i m c d l)"

definition getNumberOfJobsIssued :: "leader \<Rightarrow> error + int" where
  "getNumberOfJobsIssued l = (if jobsIssued l \<ge> 0 then Inr (jobsIssued l) else Inl AssertionError)"

definition getJob :: "nat \<Rightarrow> leader \<Rightarrow> error + pyval" where
  "getJob jobBatchSystemID l =
     (case map_of (jobBatchSystemIDToJobStoreIDHash l) jobBatchSystemID of
        None \<Rightarrow> Inl KeyError
      | Some i \<Rightarrow> Inr i)"

definition hasJob :: "nat \<Rightarrow> leader \<Rightarrow> bool" where
  "hasJob jobBatchSystemID l = (map_of (jobBatchSystemIDToJobStoreIDHash l) jobBatchSystemID \<noteq> None)"

definition getJobIDs :: "leader \<Rightarrow> nat list" where
  "getJobIDs l = map fst (jobBatchSystemIDToJobStoreIDHash l)"

definition removeJobID :: "nat \<Rightarrow> leader \<Rightarrow> error + (pyval \<times> leader)" where
  "removeJobID jobBatchSystemID l =
     (case map_of (jobBatchSystemIDToJobStoreIDHash l) jobBatchSystemID of
        None \<Rightarrow> Inl AssertionError
      | Some i \<Rightarrow>
          Inr (i, l\<lparr>jobsIssued := jobsIssued l - 1,
                    jobBatchSystemIDToJobStoreIDHash :=
                      AList.delete jobBatchSystemID (jobBatchSystemIDToJobStoreIDHash l)\<rparr>))"

text \<open>
  Modelled from the spec: \<open>BatchJob.setupJobAfterFailure\<close> (toil/batchJob.py is not
  among the source files) decrements \<open>remainingRetryCount\<close>, which stays at least 0.
\<close>

definition setupJobAfterFailure :: "config \<Rightarrow> batchjob \<Rightarrow> batchjob" where
  "setupJobAfterFailure cfg b = b\<lparr>remainingRetryCount := max 0 (remainingRetryCount b - 1)\<rparr>"

text \<open>\<open>JobBatcher._updatePredecessorStatus\<close>, first its loop over the predecessors.\<close>

fun updatePredecessors :: "batchjob list \<Rightarrow> leader \<Rightarrow> error + leader" where
  "updatePredecessors [] l = Inr l"
| "updatePredecessors (predecessorJob # ps) l =
     (case map_of (successorCounts l) predecessorJob of
        None \<Rightarrow> Inl KeyError
      | Some n \<Rightarrow>
          if \<not> n - 1 \<ge> 0 then Inl AssertionError
          else if n - 1 = 0 then
            (if predecessorJob \<in> set (updatedJobs l) then Inl AssertionError
             else updatePredecessors ps
                    (l\<lparr>successorCounts := AList.delete predecessorJob (successorCounts l),
                       updatedJobs := List.insert predecessorJob (updatedJobs l)\<rparr>))
          else updatePredecessors ps
                 (l\<lparr>successorCounts := AList.update predecessorJob (n - 1) (successorCounts l)\<rparr>))"

definition updatePredecessorStatus :: "pyval \<Rightarrow> leader \<Rightarrow> error + leader" where
  "updatePredecessorStatus i l =
     (case map_of (successorJobStoreIDToPredecessorJobs l) i of
        None \<Rightarrow>
          if length (updatedJobs l) = 0 \<and> length (successorJobStoreIDToPredecessorJobs l) = 0
             \<and> length (successorCounts l) = 0
          then Inr l else Inl AssertionError
      | Some ps \<Rightarrow>
          updatePredecessors ps
            (l\<lparr>successorJobStoreIDToPredecessorJobs :=
                 AList.delete i (successorJobStoreIDToPredecessorJobs l)\<rparr>))"

text \<open>\<open>JobBatcher.processFinishedJob\<close>.\<close>

definition processFinishedJob :: "config \<Rightarrow> nat \<Rightarrow> int \<Rightarrow> leader \<Rightarrow> error + leader" where
  "processFinishedJob cfg jobBatchSystemID resultStatus l =
     (case removeJobID jobBatchSystemID l of
        Inl e \<Rightarrow> Inl e
      | Inr (i, l1) \<Rightarrow>
          if exists_pv (jobStore l1) i then
            (case load_pv (jobStore l1) i of
               Inl e \<Rightarrow> Inl e
             | Inr b \<Rightarrow>
                 if b \<in> set (updatedJobs l1) then Inl AssertionError
                 else Inr (l1\<lparr>updatedJobs :=
                             List.insert (if resultStatus \<noteq> 0 then setupJobAfterFailure cfg b else b)
                               (updatedJobs l1)\<rparr>))
          else updatePredecessorStatus i l1)"

text \<open>\<open>JobBatcher.killJobs\<close>.\<close>

definition killJobs :: "config \<Rightarrow> nat list \<Rightarrow> leader \<Rightarrow> error + leader" where
  "killJobs cfg jobsToKill l =
     (if length jobsToKill > 0 then
        forM (\<lambda>jobBatchSystemID. processFinishedJob cfg jobBatchSystemID 1) jobsToKill
          (l\<lparr>batchSystem := killBatchJobs jobsToKill (batchSystem l)\<rparr>)
      else Inr l)"

text \<open>
  \<open>JobBatcher.reissueOverLongJobs\<close>. \<open>runningJobs\<close> is what
  \<open>getRunningBatchJobIDs\<close> answers. The loop collects the ids to kill; its log message
  looks each of them up with \<open>getJob\<close>.
\<close>

fun overLongJobs :: "real \<Rightarrow> (nat \<times> real) list \<Rightarrow> nat list \<Rightarrow> leader \<Rightarrow> nat list \<Rightarrow> error + nat list" where
  "overLongJobs maxJobDuration runningJobs [] l jobsToKill = Inr jobsToKill"
| "overLongJobs maxJobDuration runningJobs (jobBatchSystemID # ks) l jobsToKill =
     (case map_of runningJobs jobBatchSystemID of
        None \<Rightarrow> Inl KeyError
      | Some t \<Rightarrow>
          if t > maxJobDuration then
            (case getJob jobBatchSystemID l of
               Inl e \<Rightarrow> Inl e
             | Inr _ \<Rightarrow> overLongJobs maxJobDuration runningJobs ks l (jobsToKill @ [jobBatchSystemID]))
          else overLongJobs maxJobDuration runningJobs ks l jobsToKill)"

definition reissueOverLongJobs :: "config \<Rightarrow> (nat \<times> real) list \<Rightarrow> leader \<Rightarrow> error + leader" where
  "reissueOverLongJobs cfg runningJobs l =
     (let idealJobTime = job_time cfg;
          maxJobDuration =
            (if max_job_duration cfg < idealJobTime * 10 then idealJobTime * 10 else max_job_duration cfg)
      in if maxJobDuration < 10000000 then
           (case overLongJobs maxJobDuration runningJobs (map fst runningJobs) l [] of
              Inl e \<Rightarrow> Inl e
            | Inr jobsToKill \<Rightarrow> killJobs cfg jobsToKill l)
         else Inr l)"

text \<open>
  \<open>JobBatcher.reissueMissingJobs\<close>, with \<open>killAfterNTimesMissing = 3\<close>.
  \<open>issuedIDs\<close> is what \<open>getIssuedBatchJobIDs\<close> answers. The result says whether
  the hash of misses is empty.
\<close>

fun countMissing :: "nat list \<Rightarrow> leader \<Rightarrow> nat list \<Rightarrow> error + (leader \<times> nat list)" where
  "countMissing [] l jobsToKill = Inr (l, jobsToKill)"
| "countMissing (jobBatchSystemID # ks) l jobsToKill =
     (case getJob jobBatchSystemID l of
        Inl e \<Rightarrow> Inl e
      | Inr _ \<Rightarrow>
          (let timesMissing =
                 (case map_of (reissueMissingJobs_missingHash l) jobBatchSystemID of
                    Some n \<Rightarrow> n + 1
                  | None \<Rightarrow> 1)
           in if timesMissing = 3 then
                countMissing ks
                  (l\<lparr>reissueMissingJobs_missingHash :=
                       AList.delete jobBatchSystemID (reissueMissingJobs_missingHash l)\<rparr>)
                  (jobsToKill @ [jobBatchSystemID])
              else
                countMissing ks
                  (l\<lparr>reissueMissingJobs_missingHash :=
                       AList.update jobBatchSystemID timesMissing (reissueMissingJobs_missingHash l)\<rparr>)
                  jobsToKill))"

definition reissueMissingJobs :: "config \<Rightarrow> nat list \<Rightarrow> leader \<Rightarrow> error + (bool \<times> leader)" where
  "reissueMissingJobs cfg issuedIDs l =
     (let l1 = l\<lparr>reissueMissingJobs_missingHash :=
                   filter (\<lambda>(k, n). k \<in> set (getJobIDs l)) (reissueMissingJobs_missingHash l)\<rparr>
      in if \<not> set issuedIDs \<subseteq> set (getJobIDs l1) then Inl AssertionError
         else case countMissing (filter (\<lambda>k. k \<notin> set issuedIDs) (getJobIDs l1)) l1 [] of
                Inl e \<Rightarrow> Inl e
              | Inr (l2, jobsToKill) \<Rightarrow>
                  (case killJobs cfg jobsToKill l2 of
                     Inl e \<Rightarrow> Inl e
                   | Inr l3 \<Rightarrow> Inr (length (reissueMissingJobs_missingHash l3) = 0, l3)))"


subsection \<open>ToilState\<close>

text \<open>
  \<open>ToilState._buildToilState\<close>. It iterates over the elements of the last phase and
  uses each element itself as the key and as the argument of \<open>load\<close>.
\<close>

definition appendPredecessor :: "pyval \<Rightarrow> batchjob \<Rightarrow> leader \<Rightarrow> leader" where
  "appendPredecessor i b l =
     l\<lparr>successorJobStoreIDToPredecessorJobs :=
         AList.update i
           ((case map_of (successorJobStoreIDToPredecessorJobs l) i of None \<Rightarrow> [] | Some ps \<Rightarrow> ps) @ [b])
           (successorJobStoreIDToPredecessorJobs l)\<rparr>"

fun buildToilState :: "nat \<Rightarrow> batchjob \<Rightarrow> leader \<Rightarrow> error + leader" where
  "buildToilState 0 b l = Inl RecursionDepthExceeded"
| "buildToilState (Suc n) b l =
     (if command b \<noteq> None \<or> length (stack b) = 0 then
        Inr (l\<lparr>updatedJobs := List.insert b (updatedJobs l)\<rparr>)
      else
        forM (\<lambda>successorJobStoreID l1.
                if map_of (successorJobStoreIDToPredecessorJobs l1) successorJobStoreID = None then
                  (case load_pv (jobStore l1) successorJobStoreID of
                     Inl e \<Rightarrow> Inl e
                   | Inr b2 \<Rightarrow> buildToilState n b2 (appendPredecessor successorJobStoreID b l1))
                else Inr (appendPredecessor successorJobStoreID b l1))
          (last (stack b))
          (l\<lparr>successorCounts := AList.update b (int (length (last (stack b)))) (successorCounts l)\<rparr>))"

subsection \<open>The main loop: the jobs that are ready\<close>

text \<open>
  The body of the loop over a popped phase, for one element: the element is unpacked,
  the job is added to the predecessors of the successor, and the successor is appended
  to the list \<open>successors\<close> (here \<open>succs\<close>) unless it carries a predecessor id and its join is not
  complete. \<open>b\<close> is the job whose phase was popped.
\<close>

definition scheduleSuccessor ::
  "batchjob \<Rightarrow> pyval \<Rightarrow> leader \<times> (pyval \<times> pyval \<times> pyval \<times> pyval) list
     \<Rightarrow> error + (leader \<times> (pyval \<times> pyval \<times> pyval \<times> pyval) list)" where
  "scheduleSuccessor b v s =
     (case s of (l, succs) \<Rightarrow>
      case unpack5 v of
        Inl e \<Rightarrow> Inl e
      | Inr (successorJobStoreID, m, c, d, predecessorID) \<Rightarrow>
          (let l1 = appendPredecessor successorJobStoreID b l
           in if predecessorID \<noteq> PNone then
                (case load_pv (jobStore l1) successorJobStoreID of
                   Inl e \<Rightarrow> Inl e
                 | Inr job2 \<Rightarrow>
                     (let job2' = job2\<lparr>predecessorsFinished := finsert predecessorID (predecessorsFinished job2)\<rparr>;
                          l2 = l1\<lparr>jobStore := update job2' (jobStore l1)\<rparr>
                      in if \<not> fcard (predecessorsFinished job2') \<ge> 1 then Inl AssertionError
                         else if \<not> fcard (predecessorsFinished job2') \<le> predecessorNumber job2' then Inl AssertionError
                         else if fcard (predecessorsFinished job2') < predecessorNumber job2' then Inr (l2, succs)
                         else Inr (l2, succs @ [(successorJobStoreID, m, c, d)])))
              else Inr (l1, succs @ [(successorJobStoreID, m, c, d)])))"

text \<open>
  The branch \<open>elif len(batchjob.stack) > 0\<close>: the successors of the last phase are
  counted, the phase is popped, its elements are processed in order, and the successors
  collected are issued. The last phase is read here by popping it first; the job is in
  \<open>successorCounts\<close> and in the lists of predecessors as it is after the pop.
\<close>

definition scheduleSuccessors :: "batchjob \<Rightarrow> leader \<Rightarrow> error + leader" where
  "scheduleSuccessors b l =
     (case stack_pop b of
        Inl e \<Rightarrow> Inl e
      | Inr (phase, b') \<Rightarrow>
          if \<not> length phase > 0 then Inl AssertionError
          else if map_of (successorCounts l) b \<noteq> None then Inl AssertionError
          else case forM (scheduleSuccessor b') phase
                      (l\<lparr>successorCounts := AList.update b' (int (length phase)) (successorCounts l)\<rparr>, []) of
                 Inl e \<Rightarrow> Inl e
               | Inr (l1, succs) \<Rightarrow> Inr (issueJobs succs l1))"

text \<open>
  The body of \<open>for batchjob in toilState.updatedJobs\<close>; the state carries
  \<open>totalFailedJobs\<close>.
\<close>

definition processUpdatedJob :: "config \<Rightarrow> batchjob \<Rightarrow> leader \<times> nat \<Rightarrow> error + (leader \<times> nat)" where
  "processUpdatedJob cfg b s =
     (case s of (l, totalFailedJobs) \<Rightarrow>
      if command b \<noteq> None then
        (if remainingRetryCount b > 0
         then Inr (issueJob (PStr (jobStoreID b)) (PInt (memory b)) (PInt (cpu b)) (PInt (disk b)) l,
                   totalFailedJobs)
         else Inr (l, totalFailedJobs + 1))
      else if length (stack b) > 0 then
        (case scheduleSuccessors b l of Inl e \<Rightarrow> Inl e | Inr l1 \<Rightarrow> Inr (l1, totalFailedJobs))
      else
        (if remainingRetryCount b > 0
         then Inr (issueJob (PStr (jobStoreID b)) (PInt (default_memory cfg)) (PInt (default_cpu cfg))
                     (PInt (default_disk cfg)) l,
                   totalFailedJobs)
         else Inr (l, totalFailedJobs + 1)))"

text \<open>
  The first part of an iteration: when \<open>updatedJobs\<close> is not empty its jobs are
  processed and the set is reset.
\<close>

definition drainUpdatedJobs :: "config \<Rightarrow> leader \<times> nat \<Rightarrow> error + (leader \<times> nat)" where
  "drainUpdatedJobs cfg s =
     (case s of (l, totalFailedJobs) \<Rightarrow>
      if length (updatedJobs l) > 0 then
        (case getNumberOfJobsIssued l of
           Inl e \<Rightarrow> Inl e
         | Inr _ \<Rightarrow>
             (case forM (processUpdatedJob cfg) (updatedJobs l) (l, totalFailedJobs) of
                Inl e \<Rightarrow> Inl e
              | Inr (l1, t1) \<Rightarrow> Inr (l1\<lparr>updatedJobs := []\<rparr>, t1)))
      else Inr (l, totalFailedJobs))"

subsection \<open>The main loop: exit, completions and rescue\<close>

text \<open>
  What the environment does in one iteration that does not exit: what the workers did
  to the job store, what \<open>getUpdatedBatchJob(10)\<close> answers, the two readings of the
  clock, and the answers of \<open>getRunningBatchJobIDs\<close> and \<open>getIssuedBatchJobIDs\<close>.
\<close>

record event =
  workers :: "jobStore \<Rightarrow> jobStore"
  updatedJob :: "(nat \<times> int) option"
  clock :: real
  clockAfterRescue :: real
  runningBatchJobs :: "(nat \<times> real) list"
  issuedBatchJobIDs :: "nat list"

datatype 'a step = Break nat | Continue 'a | Raise error

text \<open>The exit criterion after the ready jobs: \<open>break\<close> when no job is issued.\<close>

definition drainAndCheck :: "config \<Rightarrow> leader \<times> nat \<Rightarrow> (leader \<times> nat) step" where
  "drainAndCheck cfg s =
     (case drainUpdatedJobs cfg s of
        Inl e \<Rightarrow> Raise e
      | Inr (l, totalFailedJobs) \<Rightarrow>
          (case getNumberOfJobsIssued l of
             Inl e \<Rightarrow> Raise e
           | Inr n \<Rightarrow> if n = 0 then Break totalFailedJobs else Continue (l, totalFailedJobs)))"

text \<open>
  The rest of the iteration: the updated job is processed if the batcher has it; with no
  updated job, and enough time since the last rescue, the over-long and the missing jobs
  are rescued. The state carries \<open>timeSinceJobsLastRescued\<close>.
\<close>

definition await :: "config \<Rightarrow> event \<Rightarrow> leader \<times> real \<Rightarrow> error + (leader \<times> real)" where
  "await cfg ev s =
     (case s of (l0, timeSinceJobsLastRescued) \<Rightarrow>
      let l = l0\<lparr>jobStore := workers ev (jobStore l0)\<rparr>
      in case updatedJob ev of
           Some (jobBatchSystemID, result) \<Rightarrow>
             if hasJob jobBatchSystemID l then
               (case processFinishedJob cfg jobBatchSystemID result l of
                  Inl e \<Rightarrow> Inl e
                | Inr l1 \<Rightarrow> Inr (l1, timeSinceJobsLastRescued))
             else Inr (l, timeSinceJobsLastRescued)
         | None \<Rightarrow>
             if clock ev - timeSinceJobsLastRescued \<ge> rescue_jobs_frequency cfg then
               (case reissueOverLongJobs cfg (runningBatchJobs ev) l of
                  Inl e \<Rightarrow> Inl e
                | Inr l1 \<Rightarrow>
                    (case reissueMissingJobs cfg (issuedBatchJobIDs ev) l1 of
                       Inl e \<Rightarrow> Inl e
                     | Inr (hasNoMissingJobs, l2) \<Rightarrow>
                         Inr (l2, if hasNoMissingJobs then clockAfterRescue ev
                                  else timeSinceJobsLastRescued + 60)))
             else Inr (l, timeSinceJobsLastRescued))"

text \<open>
  The \<open>while True\<close> loop over the events of the environment. \<open>Pending\<close> is the loop
  still running when the events given are used up.
\<close>

datatype outcome = Returned nat | Raised error | Pending

fun mainLoop_while :: "config \<Rightarrow> event list \<Rightarrow> leader \<times> nat \<times> real \<Rightarrow> outcome" where
  "mainLoop_while cfg [] (l, totalFailedJobs, t) =
     (case drainAndCheck cfg (l, totalFailedJobs) of
        Break n \<Rightarrow> Returned n
      | Raise e \<Rightarrow> Raised e
      | Continue _ \<Rightarrow> Pending)"
| "mainLoop_while cfg (ev # evs) (l, totalFailedJobs, t) =
     (case drainAndCheck cfg (l, totalFailedJobs) of
        Break n \<Rightarrow> Returned n
      | Raise e \<Rightarrow> Raised e
      | Continue (l1, t1) \<Rightarrow>
          (case await cfg ev (l1, t) of
             Inl e \<Rightarrow> Raised e
           | Inr (l2, t2) \<Rightarrow> mainLoop_while cfg evs (l2, t1, t2)))"

text \<open>
  \<open>mainLoop\<close>: the state is built from the root job, the batch system must know no
  job, the loop runs, and \<open>totalFailedJobs\<close> is returned. \<open>depth\<close> bounds the
  recursion of \<open>_buildToilState\<close>, \<open>issuedAtStart\<close> is the first answer of
  \<open>getIssuedBatchJobIDs\<close> and \<open>startTime\<close> the first reading of the clock. The
  process that aggregates stats and logging runs beside the loop and has no part in the
  result.
\<close>

definition newLeader :: "batchSystem \<Rightarrow> jobStore \<Rightarrow> leader" where
  "newLeader bs st =
     \<lparr>jobStore = st, batchSystem = bs, jobBatchSystemIDToJobStoreIDHash = [], jobsIssued = 0,
      reissueMissingJobs_missingHash = [], successorJobStoreIDToPredecessorJobs = [],
      successorCounts = [], updatedJobs = []\<rparr>"

definition mainLoop ::
  "nat \<Rightarrow> nat list \<Rightarrow> real \<Rightarrow> event list \<Rightarrow> config \<Rightarrow> batchSystem \<Rightarrow> jobStore \<Rightarrow> batchjob \<Rightarrow> outcome" where
  "mainLoop depth issuedAtStart startTime evs cfg bs st rootJob =
     (case buildToilState depth rootJob (newLeader bs st) of
        Inl e \<Rightarrow> Raised e
      | Inr l \<Rightarrow>
          if length issuedAtStart \<noteq> 0 then Raised AssertionError
          else mainLoop_while cfg evs (l, 0, startTime))"

text \<open>
  The ready jobs the loop comes to in a run: the contents of \<open>updatedJobs\<close> at the
  start of every iteration it begins.
\<close>

fun encountered :: "config \<Rightarrow> event list \<Rightarrow> leader \<times> nat \<times> real \<Rightarrow> batchjob list" where
  "encountered cfg [] (l, totalFailedJobs, t) = updatedJobs l"
| "encountered cfg (ev # evs) (l, totalFailedJobs, t) =
     updatedJobs l @
     (case drainAndCheck cfg (l, totalFailedJobs) of
        Continue (l1, t1) \<Rightarrow>
          (case await cfg ev (l1, t) of
             Inl e \<Rightarrow> []
           | Inr (l2, t2) \<Rightarrow> encountered cfg evs (l2, t1, t2))
      | _ \<Rightarrow> [])"

text \<open>
  A ready job the loop counts as failed: its retries are used up, and it has a command
  or an empty stack. A job with no command and a phase on its stack has its successors
  scheduled whatever its retry count.
\<close>

definition countedFailed :: "batchjob \<Rightarrow> bool" where
  "countedFailed b = (\<not> remainingRetryCount b > 0 \<and> (command b \<noteq> None \<or> stack b = []))"

text \<open>
  The state at the start of the iteration the loop reaches after the given events, if it
  neither exits nor raises before.
\<close>

fun iterate :: "config \<Rightarrow> event list \<Rightarrow> leader \<times> nat \<times> real \<Rightarrow> (leader \<times> nat \<times> real) option" where
  "iterate cfg [] s = Some s"
| "iterate cfg (ev # evs) (l, totalFailedJobs, t) =
     (case drainAndCheck cfg (l, totalFailedJobs) of
        Continue (l1, t1) \<Rightarrow>
          (case await cfg ev (l1, t) of
             Inl e \<Rightarrow> None
           | Inr (l2, t2) \<Rightarrow> iterate cfg evs (l2, t1, t2))
      | _ \<Rightarrow> None)"

text \<open>
  A running job is over-long when its running time exceeds the larger of the configured
  \<open>max_job_duration\<close> and ten times \<open>job_time\<close>, and that bound is below 10000000
  seconds.
\<close>

definition overLong :: "config \<Rightarrow> (nat \<times> real) list \<Rightarrow> nat \<Rightarrow> bool" where
  "overLong cfg runningJobs k =
     (\<exists>t. map_of runningJobs k = Some t
        \<and> t > max (max_job_duration cfg) (job_time cfg * 10)
        \<and> max (max_job_duration cfg) (job_time cfg * 10) < 10000000)"


section \<open>Concrete states\<close>

text \<open>The states at which the theorems below are instantiated.\<close>

definition numbered :: "string \<Rightarrow> nat \<Rightarrow> string" where
  "numbered prefix n = prefix @ replicate n (CHR ''i'')"

definition exampleConfig :: config where
  "exampleConfig =
     \<lparr>job_store = ''file:store'', try_count = 3, default_memory = 100, default_cpu = 1,
      default_disk = 50, job_time = 1, max_job_duration = 5, rescue_jobs_frequency = 300\<rparr>"

definition rootJob :: batchjob where
  "rootJob = newBatchJob (Some ''scriptTree firstTarget'') 100 1 50 ''root'' 3 None 0"

definition exampleStore :: jobStore where
  "exampleStore =
     \<lparr>config = exampleConfig, jobs = [(''root'', rootJob)], files = (\<lambda>_. None), statsFiles = [],
      jobIDs = numbered ''job'', nextJob = 0, fileIDs = numbered ''file'', nextFile = 0\<rparr>"

definition workerOn :: "heap \<Rightarrow> worker" where
  "workerOn h = \<lparr>wheap = h, store = exampleStore, uuids = numbered ''uuid'', nextUuid = 0\<rparr>"

text \<open>A target that vended \<open>rv(0)\<close> and \<open>rv(1)\<close>; the first promise has its file already.\<close>

definition promisingHeap :: heap where
  "promisingHeap =
     \<lparr>targets = (\<lambda>_. newTarget maxint maxint)(0 := (newTarget maxint maxint)\<lparr>rvs := [(0, 0), (1, 1)]\<rparr>),
      promises = (\<lambda>_. None)(0 := Some ''file0''), nextPromise = 2\<rparr>"

text \<open>
  A producer that vended \<open>rv(0)\<close>, whose promise has the empty file \<open>file0\<close> of the
  root job.
\<close>

definition producerWorker :: worker where
  "producerWorker =
     \<lparr>wheap = \<lparr>targets = (\<lambda>_. newTarget maxint maxint)(0 := (newTarget maxint maxint)\<lparr>rvs := [(0, 0)]\<rparr>),
               promises = (\<lambda>_. None)(0 := Some ''file0''), nextPromise = 1\<rparr>,
      store = exampleStore\<lparr>files := (\<lambda>_. None)(''file0'' := Some (''root'', EmptyFile))\<rparr>,
      uuids = numbered ''uuid'', nextUuid = 0\<rparr>"





text \<open>A batch system that numbers the jobs it is given from 0 and has been told nothing.\<close>

definition freshBatchSystem :: batchSystem where
  "freshBatchSystem = \<lparr>batchIDs = (\<lambda>n. n), issuedLog = [], killedLog = []\<rparr>"

text \<open>
  A leader with two jobs issued: batch job 0 runs the root job, batch job 1 a job whose
  record is gone from the store.
\<close>

definition rescueLeader :: leader where
  "rescueLeader =
     (newLeader freshBatchSystem exampleStore)
       \<lparr>jobBatchSystemIDToJobStoreIDHash := [(0, PStr ''root''), (1, PStr ''other'')], jobsIssued := 2\<rparr>"

text \<open>
  A run of the main loop. The root job has one attempt left. Its worker commits the graph
  (the record loses its command and gets a phase with the successor \<open>s\<close>, whose
  record is created with one attempt) and then exits with status 1. The leader schedules
  \<open>s\<close>, whose worker exits with status 1 too.
\<close>

definition lastAttemptRoot :: batchjob where
  "lastAttemptRoot = newBatchJob (Some ''scriptTree firstTarget'') 100 1 50 ''root'' 1 None 0"

definition committedRoot :: batchjob where
  "committedRoot =
     lastAttemptRoot\<lparr>command := None, stack := [[PTuple [PStr ''s'', PInt 100, PInt 1, PInt 50, PNone]]]\<rparr>"

definition successorRecord :: batchjob where
  "successorRecord = newBatchJob (Some ''scriptTree file'') 100 1 50 ''s'' 1 (Some ''u'') 1"

definition runStore :: jobStore where
  "runStore = exampleStore\<lparr>jobs := [(''root'', lastAttemptRoot)]\<rparr>"

definition quiet :: event where
  "quiet = \<lparr>workers = (\<lambda>st. st), updatedJob = None, clock = 0, clockAfterRescue = 0,
            runningBatchJobs = [], issuedBatchJobIDs = []\<rparr>"

definition runEvents :: "event list" where
  "runEvents =
     [quiet\<lparr>workers := (\<lambda>st. update committedRoot (update successorRecord st)), updatedJob := Some (0, 1)\<rparr>,
      quiet\<lparr>updatedJob := Some (1, 1)\<rparr>]"



section \<open>Lemmas: declaring the graph\<close>

lemma addChild_raises: "a |\<in>| predecessors (targets h b) \<Longrightarrow> snd (addChild a b h) = Inl RuntimeError"
  by (auto simp add: addChild_def addPredecessor_def setTarget_def Let_def)

lemma addFollowOn_raises: "a |\<in>| predecessors (targets h b) \<Longrightarrow> snd (addFollowOn a b h) = Inl RuntimeError"
  by (auto simp add: addFollowOn_def addPredecessor_def setTarget_def Let_def)

lemma addChild_pred_mono: "a |\<in>| predecessors (targets h b) \<Longrightarrow> a |\<in>| predecessors (targets (fst (addChild c d h)) b)"
  by (auto simp add: addChild_def addPredecessor_def setTarget_def Let_def)

lemma addFollowOn_pred_mono: "a |\<in>| predecessors (targets h b) \<Longrightarrow> a |\<in>| predecessors (targets (fst (addFollowOn c d h)) b)"
  by (auto simp add: addFollowOn_def addPredecessor_def setTarget_def Let_def)

lemma do_calls_pred_mono: "a |\<in>| predecessors (targets h b) \<Longrightarrow> a |\<in>| predecessors (targets (do_calls cs h) b)"
proof (induction cs arbitrary: h)
  case Nil then show ?case by simp
next
  case (Cons c cs)
  then show ?case by (cases c) (simp_all add: addChild_pred_mono addFollowOn_pred_mono)
qed

lemma addChild_returns: "snd (addChild a b h) = Inr x \<Longrightarrow> x = b \<and> a |\<notin>| predecessors (targets h b) \<and> a |\<in>| predecessors (targets (fst (addChild a b h)) b)"
  by (auto simp add: addChild_def addPredecessor_def setTarget_def Let_def split: if_splits)

lemma addFollowOn_returns: "snd (addFollowOn a b h) = Inr x \<Longrightarrow> x = b \<and> a |\<notin>| predecessors (targets h b) \<and> a |\<in>| predecessors (targets (fst (addFollowOn a b h)) b)"
  by (auto simp add: addFollowOn_def addPredecessor_def setTarget_def Let_def split: if_splits)

lemma addChild_edges_ok: "edges_ok h \<Longrightarrow> snd (addChild a b h) = Inr x \<Longrightarrow> edges_ok (fst (addChild a b h))"
  unfolding edges_ok_def successors_def
  by (auto simp add: addChild_def addPredecessor_def setTarget_def Let_def split: if_splits)

lemma addFollowOn_edges_ok: "edges_ok h \<Longrightarrow> snd (addFollowOn a b h) = Inr x \<Longrightarrow> edges_ok (fst (addFollowOn a b h))"
  unfolding edges_ok_def successors_def
  by (auto simp add: addFollowOn_def addPredecessor_def setTarget_def Let_def split: if_splits)


section \<open>Lemmas: promises\<close>

lemma map_of_append_Some: "map_of xs k = Some v \<Longrightarrow> map_of (xs @ ys) k = Some v"
  by (simp add: map_add_Some_iff)

lemma rv_cases:
  assumes "rv t i h = (p, h1)"
  shows "(map_of (rvs (targets h t)) i = Some p \<and> h1 = h) \<or>
         (map_of (rvs (targets h t)) i = None \<and> p = nextPromise h \<and> nextPromise h1 = Suc p \<and>
          rvs (targets h1 t) = rvs (targets h t) @ [(i, p)] \<and>
          (\<forall>t'. t' \<noteq> t \<longrightarrow> targets h1 t' = targets h t'))"
  using assms by (auto simp add: rv_def setTarget_def Let_def split: option.splits)

lemma rv_in_rvs: "rv t i h = (p, h1) \<Longrightarrow> map_of (rvs (targets h1 t)) i = Some p"
  by (drule rv_cases) (auto simp add: map_add_def)

lemma rv_keeps:
  assumes m: "map_of (rvs (targets h t)) i = Some p" and r: "rv t' j h = (q, h1)"
  shows "map_of (rvs (targets h1 t)) i = Some p"
proof (cases "t = t'")
  case True
  from rv_cases[OF r] show ?thesis
  proof
    assume "map_of (rvs (targets h t')) j = Some q \<and> h1 = h"
    with m show ?thesis by simp
  next
    assume "map_of (rvs (targets h t')) j = None \<and> q = nextPromise h \<and> nextPromise h1 = Suc q \<and>
          rvs (targets h1 t') = rvs (targets h t') @ [(j, q)] \<and>
          (\<forall>u. u \<noteq> t' \<longrightarrow> targets h1 u = targets h u)"
    then have "rvs (targets h1 t) = rvs (targets h t) @ [(j, q)]" using True by simp
    with map_of_append_Some[OF m, of "[(j, q)]"] show ?thesis by (simp only:)
  qed
next
  case False
  from rv_cases[OF r] False m show ?thesis by auto
qed

lemma rv_promises_ok:
  assumes ok: "promises_ok h" and r: "rv t i h = (p, h1)"
  shows "promises_ok h1"
proof -
  from rv_cases[OF r] show ?thesis
  proof
    assume "map_of (rvs (targets h t)) i = Some p \<and> h1 = h"
    with ok show ?thesis by simp
  next
    assume new: "map_of (rvs (targets h t)) i = None \<and> p = nextPromise h \<and> nextPromise h1 = Suc p \<and>
          rvs (targets h1 t) = rvs (targets h t) @ [(i, p)] \<and>
          (\<forall>t'. t' \<noteq> t \<longrightarrow> targets h1 t' = targets h t')"
    have mem: "\<And>u k q. (k, q) \<in> set (rvs (targets h1 u)) \<Longrightarrow>
                 (k, q) \<in> set (rvs (targets h u)) \<or> (u = t \<and> k = i \<and> q = p)"
    proof -
      fix u k q assume a: "(k, q) \<in> set (rvs (targets h1 u))"
      show "(k, q) \<in> set (rvs (targets h u)) \<or> (u = t \<and> k = i \<and> q = p)"
      proof (cases "u = t")
        case True with a new show ?thesis by auto
      next
        case False with a new show ?thesis by simp
      qed
    qed
    have old: "\<And>u k q. (k, q) \<in> set (rvs (targets h u)) \<Longrightarrow> q < p"
      using ok new unfolding promises_ok_def by blast
    have inj: "\<And>u k q u' k'. (k, q) \<in> set (rvs (targets h u)) \<Longrightarrow> (k', q) \<in> set (rvs (targets h u')) \<Longrightarrow> u' = u \<and> k' = k"
      using ok unfolding promises_ok_def by blast
    show ?thesis
      unfolding promises_ok_def
    proof (intro allI impI conjI)
      fix u k q assume a: "(k, q) \<in> set (rvs (targets h1 u))"
      from mem[OF a] old new show "q < nextPromise h1" by (auto simp add: less_Suc_eq)
    next
      fix u k q u' k' assume a: "(k, q) \<in> set (rvs (targets h1 u))" and b: "(k', q) \<in> set (rvs (targets h1 u'))"
      from mem[OF a] mem[OF b] old inj show "u' = u" by (metis less_irrefl)
    next
      fix u k q u' k' assume a: "(k, q) \<in> set (rvs (targets h1 u))" and b: "(k', q) \<in> set (rvs (targets h1 u'))"
      from mem[OF a] mem[OF b] old inj show "k' = k" by (metis less_irrefl)
    qed
  qed
qed

lemma rv_calls_length: "rv_calls cs h = (ps, h1) \<Longrightarrow> length ps = length cs"
  by (induction cs arbitrary: h ps h1) (auto split: prod.splits)

lemma rv_calls_promises_ok: "promises_ok h \<Longrightarrow> rv_calls cs h = (ps, h1) \<Longrightarrow> promises_ok h1"
proof (induction cs arbitrary: h ps h1)
  case Nil then show ?case by simp
next
  case (Cons c cs)
  obtain t' j where c: "c = (t', j)" by (cases c)
  obtain q h2 where r: "rv t' j h = (q, h2)" by (cases "rv t' j h")
  obtain qs h3 where rs: "rv_calls cs h2 = (qs, h3)" by (cases "rv_calls cs h2")
  from Cons.prems c r rs have "h1 = h3" by simp
  with Cons.IH[OF rv_promises_ok[OF Cons.prems(1) r] rs] show ?case by simp
qed

lemma rv_calls_keeps: "map_of (rvs (targets h t)) i = Some p \<Longrightarrow> rv_calls cs h = (ps, h1) \<Longrightarrow> map_of (rvs (targets h1 t)) i = Some p"
proof (induction cs arbitrary: h ps h1)
  case Nil then show ?case by simp
next
  case (Cons c cs)
  obtain t' j where c: "c = (t', j)" by (cases c)
  obtain q h2 where r: "rv t' j h = (q, h2)" by (cases "rv t' j h")
  obtain qs h3 where rs: "rv_calls cs h2 = (qs, h3)" by (cases "rv_calls cs h2")
  from Cons.prems c r rs have "h1 = h3" by simp
  moreover from rv_keeps[OF Cons.prems(1) r] have "map_of (rvs (targets h2 t)) i = Some p" .
  ultimately show ?case using Cons.IH rs by simp
qed

lemma rv_calls_nth:
  "rv_calls cs h = (ps, h1) \<Longrightarrow> a < length cs \<Longrightarrow>
     map_of (rvs (targets h1 (fst (cs ! a)))) (snd (cs ! a)) = Some (ps ! a)"
proof (induction cs arbitrary: h ps h1 a)
  case Nil then show ?case by simp
next
  case (Cons c cs)
  obtain t' j where c: "c = (t', j)" by (cases c)
  obtain q h2 where r: "rv t' j h = (q, h2)" by (cases "rv t' j h")
  obtain qs h3 where rs: "rv_calls cs h2 = (qs, h3)" by (cases "rv_calls cs h2")
  from Cons.prems c r rs have eq: "h1 = h3" "ps = q # qs" by simp_all
  show ?case
  proof (cases a)
    case 0
    from rv_calls_keeps[OF rv_in_rvs[OF r] rs] show ?thesis using 0 c eq by simp
  next
    case (Suc a')
    with Cons.prems have "a' < length cs" by simp
    from Cons.IH[OF rs this] show ?thesis using Suc eq by simp
  qed
qed

lemma promises_ok_inj:
  "promises_ok h \<Longrightarrow> map_of (rvs (targets h t)) i = Some p \<Longrightarrow> map_of (rvs (targets h t')) i' = Some p \<Longrightarrow> t' = t \<and> i' = i"
  unfolding promises_ok_def by (meson map_of_SomeD)

lemma rv_calls_same_iff:
  assumes "promises_ok h" "rv_calls cs h = (ps, h1)" "a < length cs" "b < length cs"
  shows "(ps ! a = ps ! b) = (cs ! a = cs ! b)"
proof
  assume "ps ! a = ps ! b"
  with rv_calls_nth[OF assms(2,3)] rv_calls_nth[OF assms(2,4)]
    promises_ok_inj[OF rv_calls_promises_ok[OF assms(1,2)]]
  show "cs ! a = cs ! b" by (metis prod.expand)
next
  assume "cs ! a = cs ! b"
  with rv_calls_nth[OF assms(2,3)] rv_calls_nth[OF assms(2,4)] show "ps ! a = ps ! b" by simp
qed

lemma rv_twice: "rv t i (snd (rv t i h)) = rv t i h"
proof -
  obtain p h1 where r: "rv t i h = (p, h1)" by (cases "rv t i h")
  from rv_in_rvs[OF r] have "rv t i h1 = (p, h1)" by (simp add: rv_def)
  with r show ?thesis by simp
qed

lemma forM_invariant:
  assumes step: "\<And>x s s'. x \<in> set xs \<Longrightarrow> P s \<Longrightarrow> f x s = Inr s' \<Longrightarrow> P s'"
    and "P s" and "forM f xs s = Inr s'"
  shows "P s'"
  using assms
proof (induction xs arbitrary: s)
  case Nil then show ?case by simp
next
  case (Cons x xs)
  from Cons.prems(3) obtain s1 where f: "f x s = Inr s1" and r: "forM f xs s1 = Inr s'"
    by (auto split: sum.splits)
  from Cons.prems(1)[OF _ Cons.prems(2) f] have p1: "P s1" by simp
  have "\<And>y t t'. y \<in> set xs \<Longrightarrow> P t \<Longrightarrow> f y t = Inr t' \<Longrightarrow> P t'"
    using Cons.prems(1) by (meson list.set_intros(2))
  from Cons.IH[OF this p1 r] show ?case .
qed

lemma setFileIDs_rvs_keeps:
  "promises (wheap w) p = Some f \<Longrightarrow> setFileIDs_rvs i ps w = Inr w' \<Longrightarrow> promises (wheap w') p = Some f"
proof (induction ps arbitrary: w)
  case Nil then show ?case by simp
next
  case (Cons q ps)
  show ?case
  proof (cases "promises (wheap w) q = None")
    case False
    with Cons.prems have "setFileIDs_rvs i ps w = Inr w'" by simp
    from Cons.IH[OF Cons.prems(1) this] show ?thesis .
  next
    case True
    with Cons.prems obtain g st where
      r: "setFileIDs_rvs i ps (w\<lparr>wheap := (wheap w)\<lparr>promises := (promises (wheap w))(q := Some g)\<rparr>, store := st\<rparr>) = Inr w'"
      by (auto split: sum.splits)
    from True Cons.prems(1) have "q \<noteq> p" by auto
    with Cons.prems(1) have
      "promises (wheap (w\<lparr>wheap := (wheap w)\<lparr>promises := (promises (wheap w))(q := Some g)\<rparr>, store := st\<rparr>)) p = Some f"
      by simp
    from Cons.IH[OF this r] show ?thesis .
  qed
qed

lemma setFileIDsForPromisedValues_keeps:
  "promises (wheap w) p = Some f \<Longrightarrow> setFileIDsForPromisedValues n t i (visited, w) = Inr (visited', w')
     \<Longrightarrow> promises (wheap w') p = Some f"
proof (induction n arbitrary: t visited w visited' w')
  case 0 then show ?case by simp
next
  case (Suc n)
  show ?case
  proof (cases "t |\<in>| visited")
    case True with Suc.prems show ?thesis by simp
  next
    case False
    with Suc.prems obtain w1 where
      a: "setFileIDs_rvs i (map snd (rvs (targets (wheap w) t))) w = Inr w1" and
      b: "forM (\<lambda>s. setFileIDsForPromisedValues n s i) (successors (wheap w1) t) (finsert t visited, w1)
            = Inr (visited', w')"
      by (auto split: sum.splits)
    from setFileIDs_rvs_keeps[OF Suc.prems(1) a] have p1: "promises (wheap w1) p = Some f" .
    have "(\<lambda>s. promises (wheap (snd s)) p = Some f) (visited', w')"
    proof (rule forM_invariant[where P = "\<lambda>s. promises (wheap (snd s)) p = Some f", OF _ _ b])
      fix x s s'
      assume "promises (wheap (snd s)) p = Some f" and "setFileIDsForPromisedValues n x i s = Inr s'"
      then show "promises (wheap (snd s')) p = Some f"
        using Suc.IH[of "snd s" x "fst s" "fst s'" "snd s'"] by simp
    next
      from p1 show "promises (wheap (snd (finsert t visited, w1))) p = Some f" by simp
    qed
    then show ?thesis by simp
  qed
qed

text \<open>What the declaration calls do to the successor lists, whether they return or raise.\<close>

lemma addChild_successors:
  "successors (fst (addChild a b h)) a = children (targets h a) @ [b] @ followOns (targets h a)"
  by (simp add: addChild_def addPredecessor_def setTarget_def successors_def Let_def)

lemma addFollowOn_successors:
  "successors (fst (addFollowOn a b h)) a = children (targets h a) @ followOns (targets h a) @ [b]"
  by (simp add: addFollowOn_def addPredecessor_def setTarget_def successors_def Let_def)

lemma do_call_successors_mono:
  "x \<in> set (successors h a) \<Longrightarrow> x \<in> set (successors (fst (do_call c h)) a)"
  by (cases c) (auto simp add: addChild_def addFollowOn_def addPredecessor_def setTarget_def successors_def Let_def)

lemma do_calls_successors_mono:
  "x \<in> set (successors h a) \<Longrightarrow> x \<in> set (successors (do_calls cs h) a)"
  by (induction cs arbitrary: h) (simp_all add: do_call_successors_mono)

lemma do_call_lists:
  "c = AddChild a b \<or> c = AddFollowOn a b \<Longrightarrow> b \<in> set (successors (fst (do_call c h)) a)"
  by (auto simp add: addChild_successors addFollowOn_successors)

lemma listed_again:
  assumes "b \<in> set (successors h a)"
  shows "\<not> distinct (successors (fst (addChild a b h)) a)"
    and "\<not> distinct (successors (fst (addFollowOn a b h)) a)"
  using assms unfolding addChild_successors addFollowOn_successors
  by (auto simp add: successors_def)


section \<open>Lemmas: storing promised values, serialising the graph\<close>

lemma storeValue_then_load:
  "storeValue p v w = Inr w' \<Longrightarrow> loadValue p w' = (if isPromise v then Inl RuntimeError else Inr v)"
  by (auto simp add: storeValue_def loadValue_def updateFileStream_def readFileStream_def
      split: option.splits sum.splits prod.splits)

lemma loadValue_never_promise: "loadValue p w = Inr v \<Longrightarrow> \<not> isPromise v"
  by (auto simp add: loadValue_def split: option.splits sum.splits content.splits if_splits)

lemma storeValue_blind: "storeValue p v w = Inr w' \<Longrightarrow> \<exists>w2. storeValue p v2 w = Inr w2"
  by (auto simp add: storeValue_def updateFileStream_def split: option.splits sum.splits prod.splits)


lemma jobTuple_unpack: "unpack5 (fst (jobTuple job w)) = Inl ValueError"
  by (simp add: jobTuple_def unpack5_def uuid_def split: prod.splits)

lemma jobTuple_shape:
  "\<exists>q. fst (jobTuple job w) = PTuple [PStr (jobStoreID job), PInt (memory job), PInt (cpu job), q]
       \<and> (q = PNone) = (predecessorNumber job \<le> 1)"
  by (simp add: jobTuple_def uuid_def split: prod.splits)

lemma makeJobWrappers_tuple:
  assumes "makeJobWrappers n uu pred self s = Inr (tup, s')"
  shows "\<exists>job w. tup = fst (jobTuple job w)"
proof (cases n)
  case 0 with assms show ?thesis by simp
next
  case (Suc m)
  obtain tj w where s: "s = (tj, w)" by (cases s)
  show ?thesis
  proof (cases "map_of tj self")
    case (Some job)
    with assms Suc s show ?thesis
      by (auto split: if_splits prod.splits) (metis fst_conv)
  next
    case None
    with assms Suc s show ?thesis
      apply (simp split: if_splits option.splits prod.splits sum.splits add: Let_def)
      apply (metis fst_conv)
      done
  qed
qed


lemma stack_pop_append: "stack_pop (j\<lparr>stack := xs @ [ph]\<rparr>) = Inr (ph, j\<lparr>stack := xs\<rparr>)"
  by (simp add: stack_pop_def)



lemma appendPhase_fields:
  "jobStoreID (appendPhase ph j) = jobStoreID j" "memory (appendPhase ph j) = memory j"
  "cpu (appendPhase ph j) = cpu j" "predecessorNumber (appendPhase ph j) = predecessorNumber j"
  by (simp_all add: appendPhase_def)








section \<open>Lemmas: cleanup\<close>


lemma descriptor_listed: "descriptor v \<Longrightarrow> \<exists>i. listed v = PStr i"
  by (auto simp add: descriptor_def listed_def split: pyval.splits list.splits)




















lemma write_then_read_stats:
  "(case writeStatsAndLogging ''abc'' ''<stats/>'' exampleStore of
      Inl e \<Rightarrow> False
    | Inr st1 \<Rightarrow>
        (case readStatsAndLogging collect [] st1 of
           (n, got, st3) \<Rightarrow>
             n = 1 \<and> got = [''<stats/>''] \<and> fst (readStatsAndLogging collect [] st3) = 0))"
  by (simp add: writeStatsAndLogging_def mkstemp_stats_def statsTempName_def write_stats_def readStatsAndLogging_def
      rename_stats_def startswith_def endswith_def exampleStore_def Let_def dropLast4_def collect_def)

section \<open>Lemmas: the leader\<close>

lemma updatePredecessors_frame:
  "updatePredecessors ps l = Inr l' \<Longrightarrow>
     jobBatchSystemIDToJobStoreIDHash l' = jobBatchSystemIDToJobStoreIDHash l
   \<and> batchSystem l' = batchSystem l \<and> jobStore l' = jobStore l \<and> jobsIssued l' = jobsIssued l
   \<and> set (updatedJobs l) \<subseteq> set (updatedJobs l')"
proof (induction ps arbitrary: l)
  case Nil then show ?case by simp
next
  case (Cons p ps)
  then show ?case
    by (auto split: option.splits if_splits) (force dest: meta_spec)+
qed

lemma updatePredecessorStatus_frame:
  "updatePredecessorStatus i l = Inr l' \<Longrightarrow>
     jobBatchSystemIDToJobStoreIDHash l' = jobBatchSystemIDToJobStoreIDHash l
   \<and> batchSystem l' = batchSystem l \<and> jobStore l' = jobStore l \<and> jobsIssued l' = jobsIssued l
   \<and> set (updatedJobs l) \<subseteq> set (updatedJobs l')"
  by (auto simp add: updatePredecessorStatus_def split: option.splits if_splits
      dest!: updatePredecessors_frame)

lemma processFinishedJob_frame:
  assumes "processFinishedJob cfg k r l = Inr l'"
  shows "jobBatchSystemIDToJobStoreIDHash l' = AList.delete k (jobBatchSystemIDToJobStoreIDHash l)
   \<and> map_of (jobBatchSystemIDToJobStoreIDHash l) k \<noteq> None
   \<and> jobsIssued l' = jobsIssued l - 1
   \<and> batchSystem l' = batchSystem l \<and> jobStore l' = jobStore l
   \<and> set (updatedJobs l) \<subseteq> set (updatedJobs l')
   \<and> (\<forall>i b. map_of (jobBatchSystemIDToJobStoreIDHash l) k = Some i \<longrightarrow> load_pv (jobStore l) i = Inr b
         \<longrightarrow> (if r \<noteq> 0 then setupJobAfterFailure cfg b else b) \<in> set (updatedJobs l'))"
proof -
  from assms obtain i where h: "map_of (jobBatchSystemIDToJobStoreIDHash l) k = Some i"
    by (auto simp add: processFinishedJob_def removeJobID_def split: option.splits)
  define l1 where "l1 = l\<lparr>jobsIssued := jobsIssued l - 1,
                    jobBatchSystemIDToJobStoreIDHash := AList.delete k (jobBatchSystemIDToJobStoreIDHash l)\<rparr>"
  have rm: "removeJobID k l = Inr (i, l1)" using h by (simp add: removeJobID_def l1_def)
  have ex: "\<And>b. load_pv (jobStore l) i = Inr b \<Longrightarrow> exists_pv (jobStore l) i"
    by (auto simp add: load_pv_def exists_pv_def load_def exists_job_def split: pyval.splits option.splits)
  show ?thesis
  proof (cases "exists_pv (jobStore l1) i")
    case True
    with assms rm obtain b where b: "load_pv (jobStore l1) i = Inr b"
      and l': "l' = l1\<lparr>updatedJobs := List.insert (if r \<noteq> 0 then setupJobAfterFailure cfg b else b) (updatedJobs l1)\<rparr>"
      by (auto simp add: processFinishedJob_def split: sum.splits if_splits)
    from b have "load_pv (jobStore l) i = Inr b" by (simp add: l1_def)
    with l' h show ?thesis by (auto simp add: l1_def)
  next
    case False
    with assms rm have u: "updatePredecessorStatus i l1 = Inr l'"
      by (simp add: processFinishedJob_def)
    from False have "\<And>b. load_pv (jobStore l) i \<noteq> Inr b" using ex by (auto simp add: l1_def)
    with updatePredecessorStatus_frame[OF u] h show ?thesis by (auto simp add: l1_def)
  qed
qed

lemma kill_loop:
  assumes "forM (\<lambda>k. processFinishedJob cfg k 1) ks l = Inr l'"
  shows "batchSystem l' = batchSystem l \<and> jobStore l' = jobStore l
   \<and> jobsIssued l' = jobsIssued l - int (length ks)
   \<and> set (updatedJobs l) \<subseteq> set (updatedJobs l')
   \<and> (\<forall>k. map_of (jobBatchSystemIDToJobStoreIDHash l') k =
            (if k \<in> set ks then None else map_of (jobBatchSystemIDToJobStoreIDHash l) k))
   \<and> (\<forall>k \<in> set ks. \<exists>i. map_of (jobBatchSystemIDToJobStoreIDHash l) k = Some i \<and>
          (\<forall>b. load_pv (jobStore l) i = Inr b \<longrightarrow> setupJobAfterFailure cfg b \<in> set (updatedJobs l')))"
  using assms
proof (induction ks arbitrary: l)
  case Nil then show ?case by simp
next
  case (Cons k ks)
  from Cons.prems obtain l1 where p: "processFinishedJob cfg k 1 l = Inr l1"
    and f: "forM (\<lambda>k. processFinishedJob cfg k 1) ks l1 = Inr l'"
    by (auto split: sum.splits)
  note F = processFinishedJob_frame[OF p]
  note I = Cons.IH[OF f]
  from F obtain i where hk: "map_of (jobBatchSystemIDToJobStoreIDHash l) k = Some i" by auto
  have h1: "\<And>x. map_of (jobBatchSystemIDToJobStoreIDHash l1) x =
              (if x = k then None else map_of (jobBatchSystemIDToJobStoreIDHash l) x)"
    using F by (simp add: delete_conv')
  have a: "batchSystem l' = batchSystem l \<and> jobStore l' = jobStore l" using F I by simp
  have b: "jobsIssued l' = jobsIssued l - int (length (k # ks))" using F I by simp
  have c: "set (updatedJobs l) \<subseteq> set (updatedJobs l')" using F I by blast
  have d: "\<forall>x. map_of (jobBatchSystemIDToJobStoreIDHash l') x =
            (if x \<in> set (k # ks) then None else map_of (jobBatchSystemIDToJobStoreIDHash l) x)"
    using I h1 by auto
  have e: "\<forall>x \<in> set (k # ks). \<exists>i. map_of (jobBatchSystemIDToJobStoreIDHash l) x = Some i \<and>
          (\<forall>b. load_pv (jobStore l) i = Inr b \<longrightarrow> setupJobAfterFailure cfg b \<in> set (updatedJobs l'))"
  proof
    fix x assume x: "x \<in> set (k # ks)"
    show "\<exists>i. map_of (jobBatchSystemIDToJobStoreIDHash l) x = Some i \<and>
          (\<forall>b. load_pv (jobStore l) i = Inr b \<longrightarrow> setupJobAfterFailure cfg b \<in> set (updatedJobs l'))"
    proof (cases "x = k")
      case True
      have "\<forall>b. load_pv (jobStore l) i = Inr b \<longrightarrow> setupJobAfterFailure cfg b \<in> set (updatedJobs l1)"
        using F hk by auto
      with I hk True show ?thesis by blast
    next
      case False
      with x have "x \<in> set ks" by simp
      with I obtain j where "map_of (jobBatchSystemIDToJobStoreIDHash l1) x = Some j"
        and "\<forall>b. load_pv (jobStore l1) j = Inr b \<longrightarrow> setupJobAfterFailure cfg b \<in> set (updatedJobs l')"
        by blast
      with h1 False F show ?thesis by auto
    qed
  qed
  from a b c d e show ?case by blast
qed

lemma killJobs_post:
  assumes "killJobs cfg ks l = Inr l'"
  shows "killedLog (batchSystem l') = killedLog (batchSystem l) @ ks
   \<and> jobStore l' = jobStore l
   \<and> jobsIssued l' = jobsIssued l - int (length ks)
   \<and> set (updatedJobs l) \<subseteq> set (updatedJobs l')
   \<and> (\<forall>k. map_of (jobBatchSystemIDToJobStoreIDHash l') k =
            (if k \<in> set ks then None else map_of (jobBatchSystemIDToJobStoreIDHash l) k))
   \<and> (\<forall>k \<in> set ks. \<exists>i. map_of (jobBatchSystemIDToJobStoreIDHash l) k = Some i \<and>
          (\<forall>b. load_pv (jobStore l) i = Inr b \<longrightarrow> setupJobAfterFailure cfg b \<in> set (updatedJobs l')))"
proof (cases "ks = []")
  case True
  with assms show ?thesis by (simp add: killJobs_def)
next
  case False
  with assms have f: "forM (\<lambda>k. processFinishedJob cfg k 1) ks
          (l\<lparr>batchSystem := killBatchJobs ks (batchSystem l)\<rparr>) = Inr l'"
    by (simp add: killJobs_def)
  from kill_loop[OF f] show ?thesis by (simp add: killBatchJobs_def)
qed

lemma overLongJobs_result:
  "overLongJobs m running ks l acc = Inr res \<Longrightarrow>
     res = acc @ filter (\<lambda>k. \<exists>t. map_of running k = Some t \<and> t > m) ks"
proof (induction ks arbitrary: acc)
  case Nil then show ?case by simp
next
  case (Cons k ks)
  show ?case
  proof (cases "\<exists>t. map_of running k = Some t \<and> t > m")
    case True
    with Cons.prems have "overLongJobs m running ks l (acc @ [k]) = Inr res"
      by (auto split: option.splits if_splits sum.splits)
    from Cons.IH[OF this] True show ?thesis by simp
  next
    case False
    with Cons.prems have "overLongJobs m running ks l acc = Inr res"
      by (auto split: option.splits if_splits sum.splits)
    from Cons.IH[OF this] False show ?thesis by simp
  qed
qed

lemma reissueOverLongJobs_post:
  assumes "reissueOverLongJobs cfg running l = Inr l'"
  shows "killedLog (batchSystem l') = killedLog (batchSystem l) @ filter (overLong cfg running) (map fst running)
   \<and> (\<forall>k. overLong cfg running k \<longrightarrow>
          map_of (jobBatchSystemIDToJobStoreIDHash l') k = None
        \<and> (\<exists>i. map_of (jobBatchSystemIDToJobStoreIDHash l) k = Some i \<and>
              (\<forall>b. load_pv (jobStore l) i = Inr b \<longrightarrow> setupJobAfterFailure cfg b \<in> set (updatedJobs l'))))
   \<and> (\<forall>k. \<not> overLong cfg running k \<longrightarrow>
          map_of (jobBatchSystemIDToJobStoreIDHash l') k = map_of (jobBatchSystemIDToJobStoreIDHash l) k)"
proof -
  define m where "m = max (max_job_duration cfg) (job_time cfg * 10)"
  have m: "(if max_job_duration cfg < job_time cfg * 10 then job_time cfg * 10 else max_job_duration cfg) = m"
    by (simp add: m_def max_def)
  show ?thesis
  proof (cases "m < 10000000")
    case False
    with assms m have "l' = l" by (simp add: reissueOverLongJobs_def Let_def)
    moreover from False have "\<And>k. \<not> overLong cfg running k" by (simp add: overLong_def m_def)
    ultimately show ?thesis by simp
  next
    case True
    with assms m obtain ks where o: "overLongJobs m running (map fst running) l [] = Inr ks"
      and k: "killJobs cfg ks l = Inr l'"
      by (auto simp add: reissueOverLongJobs_def Let_def split: sum.splits)
    have ol: "\<And>k. overLong cfg running k = (\<exists>t. map_of running k = Some t \<and> t > m)"
      using True by (simp add: overLong_def m_def)
    have "overLong cfg running = (\<lambda>k. \<exists>t. map_of running k = Some t \<and> t > m)"
      by (rule ext) (rule ol)
    with overLongJobs_result[OF o] have ks: "ks = filter (overLong cfg running) (map fst running)"
      by simp
    have mem: "\<And>k. (k \<in> set ks) = overLong cfg running k"
      unfolding ks by (auto simp add: overLong_def) (metis map_of_SomeD fst_conv image_eqI)
    from killJobs_post[OF k] show ?thesis unfolding ks[symmetric] by (simp add: mem)
  qed
qed

lemmas eval_leader =
  reissueOverLongJobs_def Let_def getJob_def killJobs_def killBatchJobs_def processFinishedJob_def
  removeJobID_def exists_pv_def exists_job_def load_pv_def load_def updatePredecessorStatus_def
  setupJobAfterFailure_def newLeader_def freshBatchSystem_def exampleStore_def exampleConfig_def
  rootJob_def newBatchJob_def hasJob_def AList.delete_eq

lemma rescue_evaluated:
  "(case reissueOverLongJobs exampleConfig [(0, 11), (1, 7)] rescueLeader of
      Inl e \<Rightarrow> False
    | Inr l' \<Rightarrow> killedLog (batchSystem l') = [0] \<and> jobsIssued l' = 1
        \<and> updatedJobs l' = [rootJob\<lparr>remainingRetryCount := 2\<rparr>])"
  by (simp add: rescueLeader_def eval_leader)

lemma scheduleSuccessor_join:
  assumes "map_of (jobs (jobStore l)) i = Some job2" and "pid \<noteq> PNone"
  shows "scheduleSuccessor b (PTuple [PStr i, m, c, d, pid]) (l, ss) =
     (if fcard (finsert pid (predecessorsFinished job2)) \<le> predecessorNumber job2
      then Inr ((appendPredecessor (PStr i) b l)
                  \<lparr>jobStore := update (job2\<lparr>predecessorsFinished := finsert pid (predecessorsFinished job2)\<rparr>) (jobStore l)\<rparr>,
                if fcard (finsert pid (predecessorsFinished job2)) = predecessorNumber job2
                then ss @ [(PStr i, m, c, d)] else ss)
      else Inl AssertionError)"
proof -
  have "fcard (finsert pid (predecessorsFinished job2)) \<ge> 1"
    by (simp add: fcard_finsert)
  with assms show ?thesis
    by (auto simp add: scheduleSuccessor_def unpack5_def load_pv_def load_def appendPredecessor_def Let_def)
qed

lemma load_update: "jobStoreID j = i \<Longrightarrow> load (update j st) i = Inr j"
  by (simp add: load_def update_def update_conv')

lemma processUpdatedJob_count:
  "processUpdatedJob cfg b (l, t) = Inr (l', t') \<Longrightarrow> t' = t + (if countedFailed b then 1 else 0)"
  by (auto simp add: processUpdatedJob_def countedFailed_def split: if_splits sum.splits)

lemma forM_processUpdatedJob_count:
  "forM (processUpdatedJob cfg) bs (l, t) = Inr (l', t') \<Longrightarrow> t' = t + length (filter countedFailed bs)"
proof (induction bs arbitrary: l t)
  case Nil then show ?case by simp
next
  case (Cons b bs)
  from Cons.prems obtain l1 t1 where p: "processUpdatedJob cfg b (l, t) = Inr (l1, t1)"
    and f: "forM (processUpdatedJob cfg) bs (l1, t1) = Inr (l', t')"
    by (auto split: sum.splits)
  from processUpdatedJob_count[OF p] Cons.IH[OF f] show ?case by simp
qed

lemma drainUpdatedJobs_count:
  "drainUpdatedJobs cfg (l, t) = Inr (l', t') \<Longrightarrow> t' = t + length (filter countedFailed (updatedJobs l))"
  by (auto simp add: drainUpdatedJobs_def split: if_splits sum.splits dest: forM_processUpdatedJob_count)

lemma drainAndCheck_Break:
  "(drainAndCheck cfg s = Break n) = (\<exists>l'. drainUpdatedJobs cfg s = Inr (l', n) \<and> jobsIssued l' = 0)"
  by (auto simp add: drainAndCheck_def getNumberOfJobsIssued_def split: sum.splits if_splits)

lemma drainAndCheck_Continue_count:
  "drainAndCheck cfg (l, t) = Continue (l1, t1) \<Longrightarrow> t1 = t + length (filter countedFailed (updatedJobs l))"
  by (auto simp add: drainAndCheck_def split: sum.splits if_splits dest: drainUpdatedJobs_count)

lemma drainAndCheck_Break_count:
  "drainAndCheck cfg (l, t) = Break n \<Longrightarrow> n = t + length (filter countedFailed (updatedJobs l))"
  by (auto simp add: drainAndCheck_Break dest: drainUpdatedJobs_count)

lemma mainLoop_while_count:
  "mainLoop_while cfg evs (l, t, ts) = Returned n \<Longrightarrow>
     n = t + length (filter countedFailed (encountered cfg evs (l, t, ts)))"
proof (induction evs arbitrary: l t ts)
  case Nil
  then have "drainAndCheck cfg (l, t) = Break n" by (auto split: step.splits)
  from drainAndCheck_Break_count[OF this] show ?case by simp
next
  case (Cons ev evs)
  show ?case
  proof (cases "drainAndCheck cfg (l, t)")
    case (Break k)
    with Cons.prems have "k = n" by simp
    with Break drainAndCheck_Break_count[of cfg l t n] show ?thesis by simp
  next
    case (Raise e)
    with Cons.prems show ?thesis by simp
  next
    case (Continue s1)
    obtain l1 t1 where s1: "s1 = (l1, t1)" by (cases s1)
    from Continue s1 Cons.prems obtain l2 ts2 where a: "await cfg ev (l1, ts) = Inr (l2, ts2)"
      and r: "mainLoop_while cfg evs (l2, t1, ts2) = Returned n"
      by (auto split: sum.splits)
    from Cons.IH[OF r] drainAndCheck_Continue_count[of cfg l t l1 t1] Continue s1 a
    show ?thesis by simp
  qed
qed

lemma mainLoop_while_exit:
  "(mainLoop_while cfg evs s = Returned n) =
     (\<exists>k l t ts l'. k \<le> length evs \<and> iterate cfg (take k evs) s = Some (l, t, ts)
         \<and> drainUpdatedJobs cfg (l, t) = Inr (l', n) \<and> jobsIssued l' = 0)"
proof (induction evs arbitrary: s)
  case Nil
  obtain l t ts where s: "s = (l, t, ts)" by (cases s)
  have "(mainLoop_while cfg [] s = Returned n) = (drainAndCheck cfg (l, t) = Break n)"
    using s by (auto split: step.splits)
  then show ?case using s by (auto simp add: drainAndCheck_Break)
next
  case (Cons ev evs)
  obtain l t ts where s: "s = (l, t, ts)" by (cases s)
  show ?case
  proof (cases "drainAndCheck cfg (l, t)")
    case (Break m)
    have no: "\<And>k. iterate cfg (ev # take k evs) s = None"
      using Break s by simp
    show ?thesis
    proof
      assume "mainLoop_while cfg (ev # evs) s = Returned n"
      with Break s have "drainAndCheck cfg (l, t) = Break n" by simp
      then obtain l' where "drainUpdatedJobs cfg (l, t) = Inr (l', n)" "jobsIssued l' = 0"
        by (auto simp add: drainAndCheck_Break)
      then show "\<exists>k l t ts l'. k \<le> length (ev # evs) \<and> iterate cfg (take k (ev # evs)) s = Some (l, t, ts)
         \<and> drainUpdatedJobs cfg (l, t) = Inr (l', n) \<and> jobsIssued l' = 0"
        using s by (intro exI[of _ 0] exI[of _ l] exI[of _ t] exI[of _ ts] exI[of _ l']) simp
    next
      assume "\<exists>k l t ts l'. k \<le> length (ev # evs) \<and> iterate cfg (take k (ev # evs)) s = Some (l, t, ts)
         \<and> drainUpdatedJobs cfg (l, t) = Inr (l', n) \<and> jobsIssued l' = 0"
      then obtain k la ta tsa l' where k: "iterate cfg (take k (ev # evs)) s = Some (la, ta, tsa)"
        and d: "drainUpdatedJobs cfg (la, ta) = Inr (l', n)" "jobsIssued l' = 0" by blast
      from k no have "k = 0" by (cases k) auto
      with k s have "la = l" "ta = t" by simp_all
      with d have "drainAndCheck cfg (l, t) = Break n" by (auto simp add: drainAndCheck_Break)
      with s show "mainLoop_while cfg (ev # evs) s = Returned n" by simp
    qed
  next
    case (Raise e)
    have no: "\<And>k. iterate cfg (ev # take k evs) s = None"
      using Raise s by simp
    have nb: "\<And>l'. \<not> (drainUpdatedJobs cfg (l, t) = Inr (l', n) \<and> jobsIssued l' = 0)"
      using Raise drainAndCheck_Break[of cfg "(l, t)" n] by auto
    have "\<not> (\<exists>k l t ts l'. k \<le> length (ev # evs) \<and> iterate cfg (take k (ev # evs)) s = Some (l, t, ts)
         \<and> drainUpdatedJobs cfg (l, t) = Inr (l', n) \<and> jobsIssued l' = 0)"
    proof
      assume "\<exists>k l t ts l'. k \<le> length (ev # evs) \<and> iterate cfg (take k (ev # evs)) s = Some (l, t, ts)
         \<and> drainUpdatedJobs cfg (l, t) = Inr (l', n) \<and> jobsIssued l' = 0"
      then obtain k la ta tsa l' where k: "iterate cfg (take k (ev # evs)) s = Some (la, ta, tsa)"
        and d: "drainUpdatedJobs cfg (la, ta) = Inr (l', n)" "jobsIssued l' = 0" by blast
      from k no have "k = 0" by (cases k) auto
      with k s have "la = l" "ta = t" by simp_all
      with d nb show False by blast
    qed
    with Raise s show ?thesis by simp
  next
    case (Continue s1)
    obtain l1 t1 where s1: "s1 = (l1, t1)" by (cases s1)
    have nb: "\<And>l'. \<not> (drainUpdatedJobs cfg (l, t) = Inr (l', n) \<and> jobsIssued l' = 0)"
      using Continue drainAndCheck_Break[of cfg "(l, t)" n] by auto
    show ?thesis
    proof (cases "await cfg ev (l1, ts)")
      case (Inl e)
      have no: "\<And>k. iterate cfg (ev # take k evs) s = None"
        using Continue s1 Inl s by simp
      have "\<not> (\<exists>k l t ts l'. k \<le> length (ev # evs) \<and> iterate cfg (take k (ev # evs)) s = Some (l, t, ts)
         \<and> drainUpdatedJobs cfg (l, t) = Inr (l', n) \<and> jobsIssued l' = 0)"
      proof
        assume "\<exists>k l t ts l'. k \<le> length (ev # evs) \<and> iterate cfg (take k (ev # evs)) s = Some (l, t, ts)
         \<and> drainUpdatedJobs cfg (l, t) = Inr (l', n) \<and> jobsIssued l' = 0"
        then obtain k la ta tsa l' where k: "iterate cfg (take k (ev # evs)) s = Some (la, ta, tsa)"
          and d: "drainUpdatedJobs cfg (la, ta) = Inr (l', n)" "jobsIssued l' = 0" by blast
        from k no have "k = 0" by (cases k) auto
        with k s have "la = l" "ta = t" by simp_all
        with d nb show False by blast
      qed
      with Continue s1 Inl s show ?thesis by simp
    next
      case (Inr s2)
      obtain l2 ts2 where s2: "s2 = (l2, ts2)" by (cases s2)
      have step: "\<And>k. iterate cfg (take (Suc k) (ev # evs)) s = iterate cfg (take k evs) (l2, t1, ts2)"
        using Continue s1 Inr s2 s by simp
      have ml: "mainLoop_while cfg (ev # evs) s = mainLoop_while cfg evs (l2, t1, ts2)"
        using Continue s1 Inr s2 s by simp
      show ?thesis
      proof
        assume "mainLoop_while cfg (ev # evs) s = Returned n"
        with ml Cons.IH[of "(l2, t1, ts2)"] obtain k la ta tsa l' where
          "k \<le> length evs" "iterate cfg (take k evs) (l2, t1, ts2) = Some (la, ta, tsa)"
          "drainUpdatedJobs cfg (la, ta) = Inr (l', n)" "jobsIssued l' = 0" by auto
        then show "\<exists>k l t ts l'. k \<le> length (ev # evs) \<and> iterate cfg (take k (ev # evs)) s = Some (l, t, ts)
         \<and> drainUpdatedJobs cfg (l, t) = Inr (l', n) \<and> jobsIssued l' = 0"
          using step[of k]
          by (intro exI[of _ "Suc k"] exI[of _ la] exI[of _ ta] exI[of _ tsa] exI[of _ l']) simp
      next
        assume "\<exists>k l t ts l'. k \<le> length (ev # evs) \<and> iterate cfg (take k (ev # evs)) s = Some (l, t, ts)
         \<and> drainUpdatedJobs cfg (l, t) = Inr (l', n) \<and> jobsIssued l' = 0"
        then obtain k la ta tsa l' where kl: "k \<le> length (ev # evs)"
          and k: "iterate cfg (take k (ev # evs)) s = Some (la, ta, tsa)"
          and d: "drainUpdatedJobs cfg (la, ta) = Inr (l', n)" "jobsIssued l' = 0" by blast
        have "k \<noteq> 0"
        proof
          assume "k = 0"
          with k s have "la = l" "ta = t" by simp_all
          with d nb show False by blast
        qed
        then obtain k' where k': "k = Suc k'" by (cases k) auto
        with k step[of k'] have "iterate cfg (take k' evs) (l2, t1, ts2) = Some (la, ta, tsa)" by simp
        moreover from kl k' have "k' \<le> length evs" by simp
        ultimately have "mainLoop_while cfg evs (l2, t1, ts2) = Returned n"
          using d Cons.IH[of "(l2, t1, ts2)"] by blast
        with ml show "mainLoop_while cfg (ev # evs) s = Returned n" by simp
      qed
    qed
  qed
qed

lemmas eval_loop =
  mainLoop_def newLeader_def drainAndCheck_def drainUpdatedJobs_def processUpdatedJob_def
  getNumberOfJobsIssued_def issueJob_def issueBatchJob_def await_def hasJob_def
  processFinishedJob_def removeJobID_def exists_pv_def exists_job_def load_pv_def load_def
  update_def setupJobAfterFailure_def scheduleSuccessors_def scheduleSuccessor_def stack_pop_def
  unpack5_def appendPredecessor_def updatePredecessorStatus_def Let_def
  freshBatchSystem_def exampleStore_def exampleConfig_def newBatchJob_def AList.delete_eq

lemma run_returns:
  "mainLoop 1 [] 0 runEvents exampleConfig freshBatchSystem runStore lastAttemptRoot = Returned 1"
  by (simp add: eval_loop runEvents_def quiet_def runStore_def lastAttemptRoot_def committedRoot_def
      successorRecord_def)

lemma run_encountered:
  "encountered exampleConfig runEvents
      ((newLeader freshBatchSystem runStore)\<lparr>updatedJobs := [lastAttemptRoot]\<rparr>, 0, 0) =
     [lastAttemptRoot, committedRoot\<lparr>remainingRetryCount := 0\<rparr>, successorRecord\<lparr>remainingRetryCount := 0\<rparr>]"
  by (simp add: eval_loop runEvents_def quiet_def runStore_def lastAttemptRoot_def committedRoot_def
      successorRecord_def)

section \<open>Claims about the declaration of the graph and of promises\<close>

text \<open>
  C9. \<open>Target.rv\<close> is idempotent per index: a second call \<open>t.rv(i)\<close> returns the
  promise of the first and changes nothing; over any sequence of \<open>rv\<close> calls two calls
  return the same promise exactly when they are calls on the same target with the same
  index, so distinct indices yield distinct promises; and
  \<open>_setFileIDsForPromisedValues\<close> never replaces the file of a promise that has one, so
  no second promise file is allocated for a pair of producer and index.
\<close>

theorem rv_idempotent_per_index:
  assumes "promises_ok h" and "a < length cs" and "b < length cs"
    and "setFileIDsForPromisedValues n u j (visited, w) = Inr (visited', w')"
    and "promises (wheap w) p = Some f"
  shows "rv t i (snd (rv t i h)) = rv t i h
       \<and> (fst (rv_calls cs h) ! a = fst (rv_calls cs h) ! b) = (cs ! a = cs ! b)
       \<and> promises (wheap w') p = Some f"
proof -
  have "rv_calls cs h = (fst (rv_calls cs h), snd (rv_calls cs h))" by simp
  from rv_calls_same_iff[OF assms(1) this assms(2,3)] rv_twice[of t i h]
    setFileIDsForPromisedValues_keeps[OF assms(5,4)]
  show ?thesis by simp
qed

theorem rv_idempotent_per_index_witness:
  "promises_ok emptyHeap
   \<and> rv 0 0 (snd (rv 0 0 emptyHeap)) = rv 0 0 emptyHeap
   \<and> fst (rv_calls [(0, 0), (0, 1), (0, 0)] emptyHeap) ! 0 = fst (rv_calls [(0, 0), (0, 1), (0, 0)] emptyHeap) ! 2
   \<and> fst (rv_calls [(0, 0), (0, 1), (0, 0)] emptyHeap) ! 0 \<noteq> fst (rv_calls [(0, 0), (0, 1), (0, 0)] emptyHeap) ! 1
   \<and> (case setFileIDsForPromisedValues 2 0 ''root'' ({||}, workerOn promisingHeap) of
        Inl e \<Rightarrow> False
      | Inr (v, w') \<Rightarrow> promises (wheap w') 0 = Some ''file0'' \<and> promises (wheap w') 1 = Some ''file'')"
proof -
  have ok: "promises_ok emptyHeap"
    by (simp add: promises_ok_def emptyHeap_def newTarget_def)
  let ?w' = "(workerOn promisingHeap)\<lparr>wheap := promisingHeap\<lparr>promises := (promises promisingHeap)(1 := Some ''file'')\<rparr>,
               store := exampleStore\<lparr>files := (files exampleStore)(''file'' := Some (''root'', EmptyFile)), nextFile := 1\<rparr>\<rparr>"
  have run: "setFileIDsForPromisedValues 2 0 ''root'' ({||}, workerOn promisingHeap) = Inr ({|0|}, ?w')"
    by (simp add: numeral_2_eq_2 workerOn_def promisingHeap_def exampleStore_def successors_def
        getEmptyFileStoreID_def writeFileStream_def exists_job_def newTarget_def numbered_def Let_def)
  have pre: "promises (wheap (workerOn promisingHeap)) 0 = Some ''file0''"
    by (simp add: workerOn_def promisingHeap_def)
  have new: "promises (wheap ?w') 1 = Some ''file''" by simp
  have l: "(0::nat) < length [(0::nat, 0::int), (0, 1), (0, 0)]" "(2::nat) < length [(0::nat, 0::int), (0, 1), (0, 0)]"
    "(1::nat) < length [(0::nat, 0::int), (0, 1), (0, 0)]"
    by simp_all
  from rv_idempotent_per_index[OF ok l(1) l(2) run pre, of 0 0]
    rv_idempotent_per_index[OF ok l(1) l(3) run pre, of 0 0] ok run new
  show ?thesis by simp
qed

text \<open>
  C10, as stated, fails in its second half: \<open>addChild\<close> appends the successor to the
  list before \<open>_addPredecessor\<close> makes its check, so the call that raises leaves the
  successor listed twice. After \<open>A.addChild(B)\<close> has returned, a second
  \<open>A.addChild(B)\<close> raises \<open>RuntimeError\<close> and leaves \<open>A._children = [B, B]\<close>: the
  pair carries two declared successor edges.
\<close>

theorem raising_call_leaves_second_edge:
  "snd (addChild 0 1 emptyHeap) = Inr 1
   \<and> snd (addChild 0 1 (fst (addChild 0 1 emptyHeap))) = Inl RuntimeError
   \<and> children (targets (fst (addChild 0 1 (fst (addChild 0 1 emptyHeap)))) 0) = [1, 1]
   \<and> edges_ok (fst (addChild 0 1 emptyHeap))
   \<and> \<not> edges_ok (fst (addChild 0 1 (fst (addChild 0 1 emptyHeap))))"
proof -
  have ok: "edges_ok (fst (addChild 0 1 emptyHeap))"
    by (simp add: edges_ok_def successors_def addChild_def addPredecessor_def setTarget_def
        emptyHeap_def newTarget_def)
  have "\<not> distinct (successors (fst (addChild 0 1 (fst (addChild 0 1 emptyHeap)))) 0)"
    by (simp add: successors_def addChild_def addPredecessor_def setTarget_def
        emptyHeap_def newTarget_def)
  then have no: "\<not> edges_ok (fst (addChild 0 1 (fst (addChild 0 1 emptyHeap))))"
    unfolding edges_ok_def by blast
  have "snd (addChild 0 1 emptyHeap) = Inr 1
   \<and> snd (addChild 0 1 (fst (addChild 0 1 emptyHeap))) = Inl RuntimeError
   \<and> children (targets (fst (addChild 0 1 (fst (addChild 0 1 emptyHeap)))) 0) = [1, 1]"
    by (simp add: addChild_def addPredecessor_def setTarget_def emptyHeap_def newTarget_def)
  with ok no show ?thesis by simp
qed

text \<open>
  C10, amended. After \<open>B\<close> has been added as a successor of \<open>A\<close> by an \<open>addChild\<close> or
  \<open>addFollowOn\<close> call that returned, and after any further declaration calls, both
  \<open>A.addChild(B)\<close> and \<open>A.addFollowOn(B)\<close> raise \<open>RuntimeError\<close>. A call that
  returns keeps every target's successor list free of repetitions, each listed successor
  having the target among its predecessors; the call that raises has appended \<open>B\<close> a
  second time, so the lists it leaves are not free of repetitions.
\<close>

theorem second_successor_edge_raises:
  assumes "c = AddChild a b \<or> c = AddFollowOn a b" and "snd (do_call c h) = Inr x"
  shows "snd (addChild a b (do_calls cs (fst (do_call c h)))) = Inl RuntimeError
       \<and> snd (addFollowOn a b (do_calls cs (fst (do_call c h)))) = Inl RuntimeError
       \<and> (edges_ok h \<longrightarrow> edges_ok (fst (do_call c h)))
       \<and> \<not> edges_ok (fst (addChild a b (do_calls cs (fst (do_call c h)))))
       \<and> \<not> edges_ok (fst (addFollowOn a b (do_calls cs (fst (do_call c h)))))"
proof -
  from assms have "a |\<in>| predecessors (targets (fst (do_call c h)) b)"
    by (auto dest: addChild_returns addFollowOn_returns)
  then have m: "a |\<in>| predecessors (targets (do_calls cs (fst (do_call c h))) b)"
    by (rule do_calls_pred_mono)
  from assms have e: "edges_ok h \<longrightarrow> edges_ok (fst (do_call c h))"
    by (auto intro: addChild_edges_ok addFollowOn_edges_ok)
  from assms(1) have "b \<in> set (successors (do_calls cs (fst (do_call c h))) a)"
    by (intro do_calls_successors_mono do_call_lists)
  from listed_again[OF this]
  have n: "\<not> edges_ok (fst (addChild a b (do_calls cs (fst (do_call c h)))))"
    "\<not> edges_ok (fst (addFollowOn a b (do_calls cs (fst (do_call c h)))))"
    unfolding edges_ok_def by blast+
  from e n addChild_raises[OF m] addFollowOn_raises[OF m] show ?thesis by simp
qed

theorem second_successor_edge_raises_witness:
  "snd (do_call (AddChild 0 1) emptyHeap) = Inr 1
   \<and> snd (addChild 0 1 (do_calls [AddFollowOn 1 2, AddChild 0 2] (fst (do_call (AddChild 0 1) emptyHeap)))) = Inl RuntimeError
   \<and> snd (addFollowOn 0 1 (do_calls [AddFollowOn 1 2, AddChild 0 2] (fst (do_call (AddChild 0 1) emptyHeap)))) = Inl RuntimeError
   \<and> edges_ok emptyHeap \<and> edges_ok (fst (do_call (AddChild 0 1) emptyHeap))
   \<and> \<not> edges_ok (fst (addChild 0 1 (do_calls [AddFollowOn 1 2, AddChild 0 2] (fst (do_call (AddChild 0 1) emptyHeap)))))
   \<and> children (targets (fst (addChild 0 1 (do_calls [AddFollowOn 1 2, AddChild 0 2] (fst (do_call (AddChild 0 1) emptyHeap))))) 0) = [1, 2, 1]"
proof -
  have r: "snd (do_call (AddChild 0 1) emptyHeap) = Inr 1"
    by (simp add: addChild_def addPredecessor_def setTarget_def emptyHeap_def newTarget_def)
  have ok: "edges_ok emptyHeap"
    by (simp add: edges_ok_def successors_def emptyHeap_def newTarget_def)
  have ch: "children (targets (fst (addChild 0 1 (do_calls [AddFollowOn 1 2, AddChild 0 2] (fst (do_call (AddChild 0 1) emptyHeap))))) 0) = [1, 2, 1]"
    by (simp add: addChild_def addFollowOn_def addPredecessor_def setTarget_def emptyHeap_def newTarget_def Let_def)
  from second_successor_edge_raises[of "AddChild 0 1" 0 1 emptyHeap 1 "[AddFollowOn 1 2, AddChild 0 2]"] r ok ch
  show ?thesis by simp
qed

section \<open>Claims about the worker-side commit\<close>






text \<open>
  C6, as stated, fails: \<open>_setReturnValuesForPromises\<close> stores a returned
  \<open>PromisedTargetReturnValue\<close> like any other value and returns; the producing job is
  not failed.
\<close>

theorem returned_promise_stored_unchecked:
  "isPromise (PPromise 5) \<and>
   (case setReturnValuesForPromises 0 (PPromise 5) producerWorker of
      Inl e \<Rightarrow> False
    | Inr w' \<Rightarrow> readFileStream (store w') ''file0'' = Inr (Pickle (PPromise 5)))"
  by (simp add: isPromise_def setReturnValuesForPromises_def producerWorker_def argToStore_def
      storeValue_def updateFileStream_def readFileStream_def newTarget_def exampleStore_def)


text \<open>
  C6, amended. The worker stores the value a job returned without inspecting it: where
  \<open>_storeValue\<close> succeeds for one value it succeeds for a promise handle too. The check
  is made when the value is loaded for a consumer: after a store, \<open>loadValue\<close> raises
  \<open>RuntimeError\<close> exactly when the stored value is itself a
  \<open>PromisedTargetReturnValue\<close> and returns the value otherwise, so no value
  \<open>loadValue\<close> returns is a promise handle.
\<close>

theorem loadValue_rejects_stored_promise:
  assumes "storeValue p v w = Inr w'" and "loadValue p2 w2 = Inr r"
  shows "(\<exists>w3. storeValue p (PPromise q) w = Inr w3)
       \<and> loadValue p w' = (if isPromise v then Inl RuntimeError else Inr v)
       \<and> \<not> isPromise r"
  using storeValue_blind[OF assms(1)] storeValue_then_load[OF assms(1)] loadValue_never_promise[OF assms(2)]
  by simp

theorem loadValue_rejects_stored_promise_witness:
  "(\<exists>w'. storeValue 0 (PPromise 5) producerWorker = Inr w' \<and> loadValue 0 w' = Inl RuntimeError)
   \<and> (\<exists>w2. storeValue 0 (PInt 7) producerWorker = Inr w2 \<and> loadValue 0 w2 = Inr (PInt 7))
   \<and> \<not> isPromise (PInt 7)"
proof -
  have "\<exists>w'. storeValue 0 (PPromise 5) producerWorker = Inr w'"
    by (simp add: storeValue_def producerWorker_def updateFileStream_def exampleStore_def)
  then obtain w' where a: "storeValue 0 (PPromise 5) producerWorker = Inr w'" ..
  have "\<exists>w2. storeValue 0 (PInt 7) producerWorker = Inr w2"
    by (simp add: storeValue_def producerWorker_def updateFileStream_def exampleStore_def)
  then obtain w2 where b: "storeValue 0 (PInt 7) producerWorker = Inr w2" ..
  have l: "loadValue 0 w2 = Inr (PInt 7)"
    using b by (auto simp add: storeValue_def loadValue_def producerWorker_def updateFileStream_def
        readFileStream_def exampleStore_def isPromise_def)
  from loadValue_rejects_stored_promise[OF a l, of 5] loadValue_rejects_stored_promise[OF b l, of 5]
  have "loadValue 0 w' = Inl RuntimeError" and "\<not> isPromise (PInt 7)"
    by (simp_all add: isPromise_def)
  with a b l show ?thesis by blast
qed


section \<open>Claims about the job store\<close>





text \<open>
  C7. A write in progress is lost by a drain: after \<open>mkstemp\<close> and the write of the
  blob, and before the rename, \<open>readStatsAndLogging\<close> passes nothing to the callback
  and returns 0, but removes the file \<open>statsabc.new\<close>; the writer's \<open>os.rename\<close>
  then raises \<open>OSError\<close>, and the next drain returns 0 again.
\<close>

theorem drain_removes_write_in_progress:
  "(case mkstemp_stats ''abc'' exampleStore of
      Inl e \<Rightarrow> False
    | Inr (tempStatsFile, st1) \<Rightarrow>
        (case readStatsAndLogging collect [] (write_stats tempStatsFile ''<stats/>'' st1) of
           (n, got, st3) \<Rightarrow>
             n = 0 \<and> got = [] \<and> statsFiles st3 = [] \<and> rename_stats tempStatsFile st3 = Inl OSError
           \<and> fst (readStatsAndLogging collect [] st3) = 0))"
  by (simp add: mkstemp_stats_def statsTempName_def write_stats_def readStatsAndLogging_def
      rename_stats_def startswith_def endswith_def exampleStore_def Let_def)


section \<open>Claims about the leader\<close>

text \<open>
  C1, as stated, fails: the count returned is not the number of ready jobs met with
  \<open>remainingRetryCount = 0\<close>. In this run the loop meets the root job with no retries
  left, no command and a phase on its stack, schedules its successor and does not count
  it; the successor then fails for good. Two jobs were met with no retries left, and the
  loop returns 1.
\<close>

theorem mainLoop_returns_fewer_than_jobs_without_retries:
  "mainLoop 1 [] 0 runEvents exampleConfig freshBatchSystem runStore lastAttemptRoot = Returned 1
   \<and> buildToilState 1 lastAttemptRoot (newLeader freshBatchSystem runStore)
       = Inr ((newLeader freshBatchSystem runStore)\<lparr>updatedJobs := [lastAttemptRoot]\<rparr>)
   \<and> map jobStoreID (filter (\<lambda>b. remainingRetryCount b = 0)
         (encountered exampleConfig runEvents
            ((newLeader freshBatchSystem runStore)\<lparr>updatedJobs := [lastAttemptRoot]\<rparr>, 0, 0)))
       = [''root'', ''s'']"
proof -
  have b: "buildToilState 1 lastAttemptRoot (newLeader freshBatchSystem runStore)
       = Inr ((newLeader freshBatchSystem runStore)\<lparr>updatedJobs := [lastAttemptRoot]\<rparr>)"
    by (simp add: lastAttemptRoot_def newBatchJob_def newLeader_def)
  have f: "map jobStoreID (filter (\<lambda>b. remainingRetryCount b = 0)
         [lastAttemptRoot, committedRoot\<lparr>remainingRetryCount := 0\<rparr>, successorRecord\<lparr>remainingRetryCount := 0\<rparr>])
       = [''root'', ''s'']"
    by (simp add: lastAttemptRoot_def committedRoot_def successorRecord_def newBatchJob_def)
  from b f show ?thesis by (simp only: run_returns run_encountered simp_thms)
qed

text \<open>
  C1, amended. The loop is left by \<open>break\<close> exactly at an iteration where, after the
  ready jobs have been processed, the batcher's count of issued jobs is 0 (any other way
  out is an exception); \<open>mainLoop\<close> then returns \<open>totalFailedJobs\<close>, which is the
  number of ready jobs the loop came to whose retries were used up and which had a
  command or an empty stack. A ready job with no command and a phase on its stack is not
  counted, whatever its retry count.
\<close>

theorem mainLoop_exit_and_failed_count:
  assumes "mainLoop depth issuedAtStart startTime evs cfg bs st rt = Returned n"
  shows "\<exists>l0. buildToilState depth rt (newLeader bs st) = Inr l0
          \<and> n = length (filter countedFailed (encountered cfg evs (l0, 0, startTime)))
          \<and> (\<forall>s m. (mainLoop_while cfg evs s = Returned m) =
                 (\<exists>k l t ts l'. k \<le> length evs \<and> iterate cfg (take k evs) s = Some (l, t, ts)
                     \<and> drainUpdatedJobs cfg (l, t) = Inr (l', m) \<and> jobsIssued l' = 0))"
proof -
  from assms obtain l0 where b: "buildToilState depth rt (newLeader bs st) = Inr l0"
    and w: "mainLoop_while cfg evs (l0, 0, startTime) = Returned n"
    by (auto simp add: mainLoop_def split: sum.splits if_splits)
  from mainLoop_while_count[OF w] have "n = length (filter countedFailed (encountered cfg evs (l0, 0, startTime)))"
    by simp
  with b mainLoop_while_exit show ?thesis by blast
qed

theorem mainLoop_exit_and_failed_count_witness:
  "mainLoop 1 [] 0 runEvents exampleConfig freshBatchSystem runStore lastAttemptRoot = Returned 1
   \<and> (\<exists>l0. buildToilState 1 lastAttemptRoot (newLeader freshBatchSystem runStore) = Inr l0
          \<and> 1 = length (filter countedFailed (encountered exampleConfig runEvents (l0, 0, 0)))
          \<and> (\<exists>k l t ts l'. k \<le> length runEvents \<and> iterate exampleConfig (take k runEvents) (l0, 0, 0) = Some (l, t, ts)
                     \<and> drainUpdatedJobs exampleConfig (l, t) = Inr (l', 1) \<and> jobsIssued l' = 0))"
proof -
  have r: "mainLoop 1 [] 0 runEvents exampleConfig freshBatchSystem runStore lastAttemptRoot = Returned 1"
    by (rule run_returns)
  from mainLoop_exit_and_failed_count[OF r] obtain l0 where
    b: "buildToilState 1 lastAttemptRoot (newLeader freshBatchSystem runStore) = Inr l0"
    and n: "1 = length (filter countedFailed (encountered exampleConfig runEvents (l0, 0, 0)))"
    and e: "\<forall>s m. (mainLoop_while exampleConfig runEvents s = Returned m) =
                 (\<exists>k l t ts l'. k \<le> length runEvents \<and> iterate exampleConfig (take k runEvents) s = Some (l, t, ts)
                     \<and> drainUpdatedJobs exampleConfig (l, t) = Inr (l', m) \<and> jobsIssued l' = 0)"
    by blast
  from r b have "mainLoop_while exampleConfig runEvents (l0, 0, 0) = Returned 1"
    by (simp add: mainLoop_def)
  with e have "\<exists>k l t ts l'. k \<le> length runEvents \<and> iterate exampleConfig (take k runEvents) (l0, 0, 0) = Some (l, t, ts)
                     \<and> drainUpdatedJobs exampleConfig (l, t) = Inr (l', 1) \<and> jobsIssued l' = 0"
    by blast
  with r b n show ?thesis by blast
qed

text \<open>
  C8, as stated, fails: batch job 1 has been running for 7 seconds, more than the
  configured \<open>max_job_duration\<close> of 5, and the rescue neither kills it nor processes it,
  since \<open>job_time\<close> is 1 and the bound used is ten times that.
\<close>

theorem job_over_configured_duration_not_killed:
  "max_job_duration exampleConfig < 7 \<and>
   (case reissueOverLongJobs exampleConfig [(0, 11), (1, 7)] rescueLeader of
      Inl e \<Rightarrow> False
    | Inr l' \<Rightarrow> 1 \<notin> set (killedLog (batchSystem l')) \<and> hasJob 1 l')"
  by (simp add: rescueLeader_def eval_leader)


text \<open>
  C8, amended. When the over-long rescue returns, the batch system has been asked to kill
  exactly the running jobs that are over-long: those whose running time exceeds the
  larger of \<open>max_job_duration\<close> and ten times \<open>job_time\<close>, if that bound is below
  10000000 seconds, and none otherwise. Each of them has been processed as a completion
  with status 1: it is no longer among the batcher's jobs, and if its record is still
  in the store the record, with the failure set up, is among the updated jobs. A job
  that is not over-long keeps its entry in the batcher.
\<close>

theorem overlong_jobs_killed_and_failed:
  assumes "reissueOverLongJobs cfg running l = Inr l'"
  shows "killedLog (batchSystem l') = killedLog (batchSystem l) @ filter (overLong cfg running) (map fst running)
   \<and> (\<forall>k. overLong cfg running k \<longrightarrow>
          map_of (jobBatchSystemIDToJobStoreIDHash l') k = None
        \<and> (\<exists>i. map_of (jobBatchSystemIDToJobStoreIDHash l) k = Some i \<and>
              (\<forall>b. load_pv (jobStore l) i = Inr b \<longrightarrow> setupJobAfterFailure cfg b \<in> set (updatedJobs l'))))
   \<and> (\<forall>k. \<not> overLong cfg running k \<longrightarrow>
          map_of (jobBatchSystemIDToJobStoreIDHash l') k = map_of (jobBatchSystemIDToJobStoreIDHash l) k)"
  using assms by (rule reissueOverLongJobs_post)

theorem overlong_jobs_killed_and_failed_witness:
  "overLong exampleConfig [(0, 11), (1, 7)] 0 \<and> \<not> overLong exampleConfig [(0, 11), (1, 7)] 1
   \<and> (\<exists>l'. reissueOverLongJobs exampleConfig [(0, 11), (1, 7)] rescueLeader = Inr l'
          \<and> killedLog (batchSystem l') = [0]
          \<and> map_of (jobBatchSystemIDToJobStoreIDHash l') 0 = None
          \<and> setupJobAfterFailure exampleConfig rootJob \<in> set (updatedJobs l')
          \<and> map_of (jobBatchSystemIDToJobStoreIDHash l') 1 = Some (PStr ''other''))"
proof -
  have o0: "overLong exampleConfig [(0, 11), (1, 7)] 0" and o1: "\<not> overLong exampleConfig [(0, 11), (1, 7)] 1"
    by (simp_all add: overLong_def exampleConfig_def)
  from rescue_evaluated obtain l' where r: "reissueOverLongJobs exampleConfig [(0, 11), (1, 7)] rescueLeader = Inr l'"
    by (auto split: sum.splits)
  have h0: "map_of (jobBatchSystemIDToJobStoreIDHash rescueLeader) 0 = Some (PStr ''root'')"
    and h1: "map_of (jobBatchSystemIDToJobStoreIDHash rescueLeader) 1 = Some (PStr ''other'')"
    and ld: "load_pv (jobStore rescueLeader) (PStr ''root'') = Inr rootJob"
    and k0: "killedLog (batchSystem rescueLeader) = []"
    by (simp_all add: rescueLeader_def newLeader_def load_pv_def load_def exampleStore_def freshBatchSystem_def)
  note T = overlong_jobs_killed_and_failed[OF r]
  from T o0 o1 k0 have k: "killedLog (batchSystem l') = [0]" by simp
  from T o0 h0 ld have p: "map_of (jobBatchSystemIDToJobStoreIDHash l') 0 = None"
    "setupJobAfterFailure exampleConfig rootJob \<in> set (updatedJobs l')" by auto
  from T o1 h1 have q: "map_of (jobBatchSystemIDToJobStoreIDHash l') 1 = Some (PStr ''other'')" by simp
  from r k p q have "\<exists>l'. reissueOverLongJobs exampleConfig [(0, 11), (1, 7)] rescueLeader = Inr l'
          \<and> killedLog (batchSystem l') = [0]
          \<and> map_of (jobBatchSystemIDToJobStoreIDHash l') 0 = None
          \<and> setupJobAfterFailure exampleConfig rootJob \<in> set (updatedJobs l')
          \<and> map_of (jobBatchSystemIDToJobStoreIDHash l') 1 = Some (PStr ''other'')"
    by (intro exI[of _ l']) simp
  with o0 o1 show ?thesis by simp
qed


end
